theory Spec2Isabelle
  imports Complex_Main "HOL-Library.AList"
begin

section \<open>Python values used by the pipeline\<close>

text \<open>
  Strings are lists of characters with code points below 256, one \<open>char\<close> for each
  code point; \<open>len\<close> is \<open>length\<close>.  Exceptions are values:
  a fallible operation returns \<open>py_error + 'a\<close>, with \<open>Inl\<close> carrying the exception.
  The source defines one exception class, \<open>UrlError\<close> (exceptions.py); the others are
  the built-in exceptions that the built-in operations used by classes.py raise.
\<close>

datatype py_error = UrlError | ValueError | TypeError | KeyError

text \<open>
  A \<open>numpy.float64\<close> result.  Only the distinction between a number and \<open>nan\<close> is
  modelled exactly; a finite result is represented by the real number it approximates.
\<close>

datatype npfloat = NaN | Fin real

text \<open>
  The values stored in \<open>analytics_data\<close>.  A Python \<open>dict\<close> keeps insertion order, so
  a dict is an association list with distinct keys; \<open>d[k] = v\<close> is \<open>AList.update k v d\<close>
  (replace in place when the key is present, append otherwise).
\<close>

type_synonym 'v pydict = "(string \<times> 'v) list"

datatype pyval = PDict "nat pydict" | PFloat npfloat | PStr string

text \<open>\<open>dict(pairs)\<close> and a dict comprehension: the pairs are stored one after the other.\<close>

definition dict_of :: "(string \<times> 'v) list \<Rightarrow> 'v pydict" where
  "dict_of ps = fold (\<lambda>(k, v) d. AList.update k v d) ps []"

section \<open>String operations\<close>

text \<open>The characters below 256 for which \<open>str.isspace\<close> holds.\<close>

definition is_space :: "char \<Rightarrow> bool" where
  "is_space c \<longleftrightarrow> c \<in> set [CHR '' '', CHR 0x09, CHR 0x0A, CHR 0x0B, CHR 0x0C, CHR 0x0D,
                              CHR 0x1C, CHR 0x1D, CHR 0x1E, CHR 0x1F, CHR 0x85, CHR 0xA0]"

text \<open>\<open>s.strip()\<close>\<close>

definition strip :: "string \<Rightarrow> string" where
  "strip s = rev (dropWhile is_space (rev (dropWhile is_space s)))"

text \<open>
  Splitting at every character that satisfies \<open>sep\<close>: the pieces between the
  separators, empty pieces included, as \<open>re.split\<close> with a one-character class does.
\<close>

fun split_at :: "(char \<Rightarrow> bool) \<Rightarrow> string \<Rightarrow> string list" where
  "split_at sep [] = [[]]"
| "split_at sep (c # cs) =
     (if sep c then [] # split_at sep cs
      else (case split_at sep cs of
              [] \<Rightarrow> [[c]]
            | p # ps \<Rightarrow> (c # p) # ps))"

text \<open>\<open>sentence_endings = re.compile(r'[.!?]')\<close>\<close>

definition sentence_endings :: "char \<Rightarrow> bool" where
  "sentence_endings c \<longleftrightarrow> c = CHR ''.'' \<or> c = CHR ''!'' \<or> c = CHR ''?''"

text \<open>
  \<open>s.split()\<close> without arguments: runs of whitespace separate the tokens and no token
  is empty, which is splitting at every whitespace character and dropping the empty pieces.
\<close>

definition split_ws :: "string \<Rightarrow> string list" where
  "split_ws s = filter (\<lambda>t. t \<noteq> []) (split_at is_space s)"

text \<open>
  \<open>s.lower()\<close>: below 256 the upper-case letters are \<open>A\<close> to \<open>Z\<close> (65 to 90) and
  192 to 222 without the multiplication sign 215; the lower-case letter is 32 further.
\<close>

definition lower_char :: "char \<Rightarrow> char" where
  "lower_char c =
     (let n = (of_char c :: nat)
      in if (65 \<le> n \<and> n \<le> 90) \<or> (192 \<le> n \<and> n \<le> 222 \<and> n \<noteq> 215) then char_of (n + 32)
         else c)"

definition lower :: "string \<Rightarrow> string" where
  "lower s = map lower_char s"

section \<open>RawPage, PageContent, Extractor\<close>

text \<open>
  \<open>RawPage\<close>: the address and what reading \<open>raw_page.data\<close> gives.  Fetching and parsing
  the page are outside the pipeline, so a page carries the outcome of
  \<open>[p.text for p in raw_page.data.find_all('p')]\<close>: the paragraph texts, or the
  \<open>UrlError\<close> that \<open>RawPage._fetch_data\<close> raises when the request fails.
\<close>

record RawPage =
  rp_url :: string
  rp_texts :: "py_error + string list"

text \<open>\<open>PageContent\<close>: \<open>sentences\<close> and \<open>words\<close> are \<open>None\<close> until set.\<close>

record PageContent =
  url :: string
  sentences :: "string list option"
  words :: "string list option"

definition PageContent_init :: "string \<Rightarrow> PageContent" where
  "PageContent_init u = \<lparr>url = u, sentences = None, words = None\<rparr>"

definition get_sentences :: "PageContent \<Rightarrow> string list option" where
  "get_sentences pc = sentences pc"

definition get_words :: "PageContent \<Rightarrow> string list option" where
  "get_words pc = words pc"

definition set_sentences :: "PageContent \<Rightarrow> string list option \<Rightarrow> PageContent" where
  "set_sentences pc attr = pc\<lparr>sentences := attr\<rparr>"

definition set_words :: "PageContent \<Rightarrow> string list option \<Rightarrow> PageContent" where
  "set_words pc attr = pc\<lparr>words := attr\<rparr>"

text \<open>\<open>Extractor\<close>: the two attributes, \<open>None\<close> until \<open>_fetch_data\<close> has run.\<close>

record Extractor =
  ex_sentences :: "string list option"
  ex_words :: "string list option"

definition Extractor_init :: Extractor where
  "Extractor_init = \<lparr>ex_sentences = None, ex_words = None\<rparr>"

text \<open>
  The sentence list of \<open>_fetch_data\<close>:
  \<open>[s.strip() for text in texts for s in sentence_endings.split(text) if s.strip()]\<close>
\<close>

definition segment :: "string list \<Rightarrow> string list" where
  "segment texts =
     concat (map (\<lambda>text. map strip (filter (\<lambda>s. strip s \<noteq> [])
                                             (split_at sentence_endings text))) texts)"

text \<open>The word list: \<open>[word for sentence in sentences for word in sentence.split()]\<close>\<close>

definition tokenize :: "string list \<Rightarrow> string list" where
  "tokenize sents = concat (map split_ws sents)"

definition fetch_data :: "Extractor \<Rightarrow> RawPage \<Rightarrow> py_error + Extractor" where
  "fetch_data e raw_page =
     (case rp_texts raw_page of
        Inl err \<Rightarrow> Inl err
      | Inr texts \<Rightarrow>
          (let sents = segment texts
           in Inr (e\<lparr>ex_sentences := Some sents, ex_words := Some (tokenize sents)\<rparr>)))"

text \<open>
  \<open>extract_sentences\<close> and \<open>extract_words\<close> change the extractor and the page content,
  so both are returned.
\<close>

definition extract_sentences ::
  "Extractor \<Rightarrow> RawPage \<Rightarrow> PageContent \<Rightarrow> py_error + Extractor \<times> PageContent" where
  "extract_sentences e raw_page page_content =
     (case (if ex_sentences e = None then fetch_data e raw_page else Inr e) of
        Inl err \<Rightarrow> Inl err
      | Inr e' \<Rightarrow> Inr (e', set_sentences page_content (ex_sentences e')))"

definition extract_words ::
  "Extractor \<Rightarrow> RawPage \<Rightarrow> PageContent \<Rightarrow> py_error + Extractor \<times> PageContent" where
  "extract_words e raw_page page_content =
     (case (if ex_words e = None then fetch_data e raw_page else Inr e) of
        Inl err \<Rightarrow> Inl err
      | Inr e' \<Rightarrow> Inr (e', set_words page_content (ex_words e')))"

section \<open>PageAnalytics\<close>

text \<open>
  \<open>Counter(words)\<close>: \<open>mapping[elem] = mapping.get(elem, 0) + 1\<close> for every element in
  order, so the keys are in first-seen order.
\<close>

definition Counter :: "string list \<Rightarrow> nat pydict" where
  "Counter elems =
     fold (\<lambda>elem mapping.
             AList.update elem ((case map_of mapping elem of None \<Rightarrow> 0 | Some c \<Rightarrow> c) + 1) mapping)
          elems []"

text \<open>
  \<open>sorted(xs, key=k, reverse=True)\<close>: descending in the key, and stable (elements
  with equal keys keep their order), which is the stable ascending sort on the negated key.
\<close>

definition sorted_reverse :: "('a \<Rightarrow> nat) \<Rightarrow> 'a list \<Rightarrow> 'a list" where
  "sorted_reverse k xs = sort_key (\<lambda>x. - int (k x)) xs"

text \<open>
  \<open>Counter.most_common(n)\<close> is \<open>heapq.nlargest(n, items, key=itemgetter(1))\<close>, which
  returns what \<open>sorted(items, key=itemgetter(1), reverse=True)[:n]\<close> returns.
\<close>

definition most_common :: "nat \<Rightarrow> nat pydict \<Rightarrow> (string \<times> nat) list" where
  "most_common n d = take n (sorted_reverse snd d)"

definition stopwords :: "string list" where
  "stopwords = [''and'', ''or'', ''but'', ''in'', ''on'', ''at'', ''with'', ''for'', ''the'', ''a'']"

definition word_freq_top20 :: "string list \<Rightarrow> nat pydict" where
  "word_freq_top20 ws = dict_of (most_common 20 (Counter ws))"

definition filtered_word_freq :: "string list \<Rightarrow> nat pydict" where
  "filtered_word_freq ws =
     dict_of (filter (\<lambda>(word, freq). lower word \<notin> set stopwords) (word_freq_top20 ws))"

definition top_10_word_freq :: "string list \<Rightarrow> nat pydict" where
  "top_10_word_freq ws = dict_of (take 10 (sorted_reverse snd (word_freq_top20 ws)))"

definition top_10_filtered_word_freq :: "string list \<Rightarrow> nat pydict" where
  "top_10_filtered_word_freq ws = dict_of (take 10 (sorted_reverse snd (filtered_word_freq ws)))"

text \<open>
  \<open>np.mean\<close> and \<open>np.median\<close> of an integer array.  On an empty array both return
  \<open>nan\<close> (with a warning, not an exception).
\<close>

definition np_mean :: "nat list \<Rightarrow> npfloat" where
  "np_mean xs = (if xs = [] then NaN else Fin (real (sum_list xs) / real (length xs)))"

definition np_median :: "nat list \<Rightarrow> npfloat" where
  "np_median xs =
     (let s = sort xs; n = length s
      in if n = 0 then NaN
         else if odd n then Fin (real (s ! (n div 2)))
         else Fin ((real (s ! (n div 2 - 1)) + real (s ! (n div 2))) / 2))"

definition longest_words :: "string list \<Rightarrow> string list" where
  "longest_words ws = take 10 (sorted_reverse length ws)"

definition longest_words_dict :: "string list \<Rightarrow> nat pydict" where
  "longest_words_dict ws = dict_of (map (\<lambda>word. (word, length word)) (longest_words ws))"

text \<open>
  \<open>max(xs, key=k)\<close>: the first element is the candidate, a later element replaces it
  only when its key is strictly greater; \<open>ValueError\<close> on an empty sequence.
\<close>

fun py_max :: "('a \<Rightarrow> nat) \<Rightarrow> 'a list \<Rightarrow> py_error + 'a" where
  "py_max k [] = Inl ValueError"
| "py_max k (x # xs) = Inr (fold (\<lambda>item best. if k best < k item then item else best) xs x)"

record PageAnalytics =
  page_content :: PageContent
  analytics_data :: "pyval pydict"

text \<open>
  \<open>make_analytics\<close>, statement by statement.  Iterating over \<open>None\<close> raises
  \<open>TypeError\<close> (\<open>Counter(None)\<close> is the empty counter and does not raise).
\<close>

definition make_analytics :: "PageAnalytics \<Rightarrow> py_error + PageAnalytics" where
  "make_analytics self =
     (let d0 = AList.update ''top_10_words''
                 (PDict (top_10_word_freq (case get_words (page_content self) of
                                             None \<Rightarrow> [] | Some ws \<Rightarrow> ws)))
                 (analytics_data self);
          d1 = AList.update ''top_10_words_filtered''
                 (PDict (top_10_filtered_word_freq (case get_words (page_content self) of
                                                      None \<Rightarrow> [] | Some ws \<Rightarrow> ws))) d0
      in case get_words (page_content self) of
           None \<Rightarrow> Inl TypeError
         | Some ws \<Rightarrow>
            (let word_lengths = map length ws;
                 d2 = AList.update ''average_word_length'' (PFloat (np_mean word_lengths)) d1;
                 d3 = AList.update ''median_word_length'' (PFloat (np_median word_lengths)) d2;
                 d4 = AList.update ''top_10_longest_words'' (PDict (longest_words_dict ws)) d3
             in case get_sentences (page_content self) of
                  None \<Rightarrow> Inl TypeError
                | Some ss \<Rightarrow>
                   (let sentence_lengths = map (\<lambda>sentence. length (split_ws sentence)) ss;
                        d5 = AList.update ''average_sentence_length''
                               (PFloat (np_mean sentence_lengths)) d4;
                        d6 = AList.update ''median_sentence_length''
                               (PFloat (np_median sentence_lengths)) d5
                    in case py_max (\<lambda>sentence. length (split_ws sentence)) ss of
                         Inl err \<Rightarrow> Inl err
                       | Inr longest_sentence \<Rightarrow>
                           Inr (self\<lparr>analytics_data :=
                                       AList.update ''longest_sentence''
                                         (PStr longest_sentence) d6\<rparr>))))"

text \<open>\<open>PageAnalytics(page_content)\<close>\<close>

definition PageAnalytics_init :: "PageContent \<Rightarrow> py_error + PageAnalytics" where
  "PageAnalytics_init pc = make_analytics \<lparr>page_content = pc, analytics_data = []\<rparr>"

text \<open>
  \<open>save_to_json\<close>: the object after the call and the record handed to \<open>json.dump\<close>.
  The JSON text and the failures of \<open>open\<close> are not modelled.
\<close>

definition save_to_json :: "PageAnalytics \<Rightarrow> string \<Rightarrow> PageAnalytics \<times> (string \<times> pyval pydict)" where
  "save_to_json self filename =
     (let self' = self\<lparr>analytics_data :=
                         AList.update ''url'' (PStr (url (page_content self)))
                           (analytics_data self)\<rparr>
      in (self', (filename, analytics_data self')))"

text \<open>
  Formatting inside an f-string.  \<open>{v}\<close> is \<open>str(v)\<close>; \<open>{v:.2f}\<close> is defined for a
  float, raises \<open>ValueError\<close> for a \<open>str\<close> (unknown format code \<open>f\<close>) and
  \<open>TypeError\<close> for a \<open>dict\<close>.  The characters Python writes for a dict and for a float
  are parameters: \<open>repr_dict\<close> and \<open>fixed2\<close>.
\<close>

fun format_plain :: "(nat pydict \<Rightarrow> string) \<Rightarrow> (npfloat \<Rightarrow> string) \<Rightarrow> pyval \<Rightarrow> string" where
  "format_plain repr_dict str_float (PDict d) = repr_dict d"
| "format_plain repr_dict str_float (PFloat x) = str_float x"
| "format_plain repr_dict str_float (PStr s) = s"

fun format_2f :: "(npfloat \<Rightarrow> string) \<Rightarrow> pyval \<Rightarrow> py_error + string" where
  "format_2f fixed2 (PFloat x) = Inr (fixed2 x)"
| "format_2f fixed2 (PStr s) = Inl ValueError"
| "format_2f fixed2 (PDict d) = Inl TypeError"

text \<open>\<open>self.analytics_data[key]\<close>\<close>

definition getitem :: "'v pydict \<Rightarrow> string \<Rightarrow> py_error + 'v" where
  "getitem d key = (case map_of d key of None \<Rightarrow> Inl KeyError | Some v \<Rightarrow> Inr v)"

text \<open>One line of \<open>__str__\<close>: \<open>output += f"label{self.analytics_data[key]}\n"\<close>\<close>

definition line_plain ::
  "(nat pydict \<Rightarrow> string) \<Rightarrow> (npfloat \<Rightarrow> string) \<Rightarrow> PageAnalytics \<Rightarrow> string \<Rightarrow> string \<Rightarrow>
   string \<Rightarrow> py_error + string" where
  "line_plain repr_dict str_float self label key output =
     (case getitem (analytics_data self) key of
        Inl err \<Rightarrow> Inl err
      | Inr v \<Rightarrow> Inr (output @ label @ format_plain repr_dict str_float v @ [CHR 0x0A]))"

text \<open>and \<open>output += f"label{self.analytics_data[key]:.2f}\n"\<close>\<close>

definition line_2f ::
  "(npfloat \<Rightarrow> string) \<Rightarrow> PageAnalytics \<Rightarrow> string \<Rightarrow> string \<Rightarrow> string \<Rightarrow> py_error + string" where
  "line_2f fixed2 self label key output =
     (case getitem (analytics_data self) key of
        Inl err \<Rightarrow> Inl err
      | Inr v \<Rightarrow>
         (case format_2f fixed2 v of
            Inl err \<Rightarrow> Inl err
          | Inr t \<Rightarrow> Inr (output @ label @ t @ [CHR 0x0A])))"

text \<open>Sequencing: the first exception ends the method.\<close>

definition and_then :: "py_error + 'a \<Rightarrow> ('a \<Rightarrow> py_error + 'b) \<Rightarrow> py_error + 'b" where
  "and_then r f = (case r of Inl err \<Rightarrow> Inl err | Inr x \<Rightarrow> f x)"

text \<open>\<open>PageAnalytics.__str__\<close>\<close>

definition PageAnalytics_str ::
  "(nat pydict \<Rightarrow> string) \<Rightarrow> (npfloat \<Rightarrow> string) \<Rightarrow> (npfloat \<Rightarrow> string) \<Rightarrow> PageAnalytics \<Rightarrow>
   py_error + string" where
  "PageAnalytics_str repr_dict str_float fixed2 self =
     and_then (Inr (''Page Analytics for '' @ url (page_content self) @ [CHR 0x0A]))
    (\<lambda>output. and_then
       (line_plain repr_dict str_float self ''Top 10 Words: '' ''top_10_words'' output)
    (\<lambda>output. and_then
       (line_plain repr_dict str_float self ''Top 10 Words (No Stopwords): ''
          ''top_10_words_filtered'' output)
    (\<lambda>output. and_then
       (line_2f fixed2 self ''Average Word Length: '' ''average_word_length'' output)
    (\<lambda>output. and_then
       (line_2f fixed2 self ''Median Word Length: '' ''median_word_length'' output)
    (\<lambda>output. and_then
       (line_plain repr_dict str_float self ''Top 10 Longest Words: ''
          ''top_10_longest_words'' output)
    (\<lambda>output. and_then
       (line_2f fixed2 self ''Average Sentence Length: '' ''average_sentence_length'' output)
    (\<lambda>output. and_then
       (line_2f fixed2 self ''Median Sentence Length: '' ''median_sentence_length'' output)
    (\<lambda>output.
       line_2f fixed2 self ''The longest Sentence: '' ''longest_sentence'' output))))))))"

section \<open>Notions used to state the ranking properties\<close>

text \<open>
  The position at which a word is first seen in a word list (the length of the list when
  the word does not occur in it).
\<close>

definition first_seen :: "'a list \<Rightarrow> 'a \<Rightarrow> nat" where
  "first_seen ws w = length (takeWhile (\<lambda>x. x \<noteq> w) ws)"

text \<open>
  The order of a ranking by count: a higher count comes first, and of two words with the
  same count the one first seen earlier comes first.
\<close>

definition ranks_before :: "string list \<Rightarrow> string \<times> nat \<Rightarrow> string \<times> nat \<Rightarrow> bool" where
  "ranks_before ws a b \<longleftrightarrow>
     snd b < snd a \<or> (snd a = snd b \<and> first_seen ws (fst a) < first_seen ws (fst b))"

section \<open>Splitting and trimming\<close>

lemma split_at_not_Nil: "split_at sep s \<noteq> []"
  by (induction s) (auto split: list.splits)

lemma length_split_at: "length (split_at sep s) = Suc (length (filter sep s))"
  by (induction s) (auto split: list.splits)

lemma split_at_no_sep_all: "\<forall>p\<in>set (split_at sep s). \<forall>c\<in>set p. \<not> sep c"
  by (induction s) (auto split: list.splits)

lemma split_at_no_sep: "p \<in> set (split_at sep s) \<Longrightarrow> c \<in> set p \<Longrightarrow> \<not> sep c"
  using split_at_no_sep_all by blast

lemma concat_split_at: "concat (split_at sep s) = filter (\<lambda>c. \<not> sep c) s"
  by (induction s) (auto split: list.splits)

lemma split_at_none: "(\<forall>c\<in>set s. \<not> sep c) \<Longrightarrow> split_at sep s = [s]"
  by (induction s) auto

lemma all_dropWhile: "(\<forall>x\<in>set (dropWhile P s). P x) \<longleftrightarrow> (\<forall>x\<in>set s. P x)"
  by (induction s) auto

lemma strip_eq_Nil_iff: "strip s = [] \<longleftrightarrow> (\<forall>c\<in>set s. is_space c)"
  by (simp add: strip_def dropWhile_eq_Nil_conv all_dropWhile)

lemma strip_hd_last:
  assumes "strip s \<noteq> []"
  shows "\<not> is_space (hd (strip s)) \<and> \<not> is_space (last (strip s))"
proof -
  let ?d = "dropWhile is_space s" and ?r = "dropWhile is_space (rev (dropWhile is_space s))"
  from assms have r: "?r \<noteq> []" by (simp add: strip_def)
  have d: "?d \<noteq> []"
    using r by (metis dropWhile.simps(1) rev.simps(1))
  have "\<not> is_space (hd ?r)" using r by (rule hd_dropWhile)
  then have l: "\<not> is_space (last (strip s))" using r by (simp add: strip_def last_rev)
  have hd: "\<not> is_space (hd ?d)" using d by (rule hd_dropWhile)
  have "\<not> is_space (last (rev ?d))" using d hd by (simp add: last_rev)
  have "last ?r = last (rev ?d)" using r by (metis last_appendR takeWhile_dropWhile_id)
  then have "hd (strip s) = hd ?d" using r d by (simp add: strip_def hd_rev last_rev)
  with hd l show ?thesis by simp
qed

lemma strip_fixed:
  assumes "s \<noteq> []" "\<not> is_space (hd s)" "\<not> is_space (last s)"
  shows "strip s = s"
proof -
  have 1: "dropWhile is_space s = s" using assms by (cases s) auto
  have "rev s \<noteq> []" "\<not> is_space (hd (rev s))" using assms by (simp_all add: hd_rev)
  then have "dropWhile is_space (rev s) = rev s" by (cases "rev s") auto
  with 1 show ?thesis by (simp add: strip_def)
qed

lemma strip_idem: "strip (strip s) = strip s"
proof (cases "strip s = []")
  case True
  then have "strip (strip s) = strip []" by simp
  also have "\<dots> = []" by (simp add: strip_def)
  finally show ?thesis using True by simp
next
  case False then show ?thesis using strip_hd_last[OF False] by (simp add: strip_fixed)
qed

lemma set_strip: "set (strip s) \<subseteq> set s"
  by (auto simp: strip_def dest!: set_dropWhileD)

lemma segment_Nil: "segment [] = []" by (simp add: segment_def)
lemma segment_append: "segment (ps @ qs) = segment ps @ segment qs" by (simp add: segment_def)

lemma segment_member:
  assumes "s \<in> set (segment ps)"
  shows "s \<noteq> [] \<and> strip s = s \<and> (\<forall>c\<in>set s. \<not> sentence_endings c) \<and> (\<exists>c\<in>set s. \<not> is_space c)"
proof -
  from assms obtain p t where p: "p \<in> set ps" and t: "t \<in> set (split_at sentence_endings p)"
    and ne: "strip t \<noteq> []" and s: "s = strip t"
    by (auto simp: segment_def)
  have "\<forall>c\<in>set s. \<not> sentence_endings c"
    using split_at_no_sep[OF t] set_strip[of t] s by auto
  moreover have "\<exists>c\<in>set s. \<not> is_space c" using ne s strip_idem[of t] strip_eq_Nil_iff[of s] by auto
  ultimately show ?thesis using ne s strip_idem[of t] by simp
qed

lemma segment_no_terminator:
  "(\<forall>c\<in>set p. \<not> sentence_endings c) \<Longrightarrow> segment [p] = (if strip p = [] then [] else [strip p])"
  by (simp add: segment_def split_at_none)

lemma strip_decompose:
  "\<exists>a b. s = a @ strip s @ b \<and> (\<forall>c\<in>set a. is_space c) \<and> (\<forall>c\<in>set b. is_space c)"
proof -
  let ?d = "dropWhile is_space s"
  have 1: "s = takeWhile is_space s @ ?d" by simp
  have "?d = rev (takeWhile is_space (rev ?d) @ dropWhile is_space (rev ?d))"
    by (simp only: takeWhile_dropWhile_id rev_rev_ident)
  also have "\<dots> = strip s @ rev (takeWhile is_space (rev ?d))"
    by (simp only: rev_append strip_def)
  finally have 2: "?d = strip s @ rev (takeWhile is_space (rev ?d))" .
  have 3: "\<forall>c\<in>set (takeWhile is_space s). is_space c"
    by (auto dest: set_takeWhileD)
  have 4: "\<forall>c\<in>set (rev (takeWhile is_space (rev ?d))). is_space c"
    by (auto dest: set_takeWhileD)
  from 1 2 have "s = takeWhile is_space s @ strip s @ rev (takeWhile is_space (rev ?d))"
    by metis
  with 3 4 show ?thesis by blast
qed

lemma segment_concat: "segment ps = concat (map (\<lambda>p. segment [p]) ps)"
  by (simp add: segment_def)

lemma segment_example: "segment [''A. B! C?''] = [''A'', ''B'', ''C'']"
  by (simp add: segment_def strip_def sentence_endings_def is_space_def)

section \<open>The sentence segmenter\<close>

text \<open>
  C6.  The segmenter treats the paragraphs one by one and keeps their order; inside a
  paragraph every \<open>.\<close>, \<open>!\<close> and \<open>?\<close> is a boundary (there is one piece more than
  there are terminators, and the pieces together are the paragraph without them); every
  piece is trimmed and the pieces that are empty after trimming are dropped.  So
  \<open>"A. B! C?"\<close> gives \<open>["A", "B", "C"]\<close>, a paragraph without a terminator gives its
  trimmed text as the only sentence when that is not empty, no paragraphs give no
  sentences, and every sentence is non-empty, trimmed, not pure whitespace and free of
  terminators.
\<close>

theorem segment_spec:
  "segment [] = []
   \<and> segment (ps @ qs) = segment ps @ segment qs
   \<and> segment ps = concat (map (\<lambda>p. segment [p]) ps)
   \<and> segment [p] = filter (\<lambda>s. s \<noteq> []) (map strip (split_at sentence_endings p))
   \<and> length (split_at sentence_endings p) = Suc (length (filter sentence_endings p))
   \<and> concat (split_at sentence_endings p) = filter (\<lambda>c. \<not> sentence_endings c) p
   \<and> (\<exists>a b. p = a @ strip p @ b \<and> (\<forall>c\<in>set a. is_space c) \<and> (\<forall>c\<in>set b. is_space c))
   \<and> segment [''A. B! C?''] = [''A'', ''B'', ''C'']
   \<and> ((\<forall>c\<in>set p. \<not> sentence_endings c) \<longrightarrow>
        segment [p] = (if strip p = [] then [] else [strip p]))
   \<and> (\<forall>s\<in>set (segment ps).
          s \<noteq> [] \<and> (\<exists>c\<in>set s. \<not> is_space c) \<and> strip s = s
          \<and> (\<forall>c\<in>set s. \<not> sentence_endings c))"
proof -
  have "segment [p] = filter (\<lambda>s. s \<noteq> []) (map strip (split_at sentence_endings p))"
    by (simp add: segment_def filter_map comp_def)
  moreover have "\<forall>s\<in>set (segment ps).
          s \<noteq> [] \<and> (\<exists>c\<in>set s. \<not> is_space c) \<and> strip s = s
          \<and> (\<forall>c\<in>set s. \<not> sentence_endings c)"
    using segment_member by blast
  moreover note segment_Nil segment_append segment_concat[of ps] length_split_at
    concat_split_at strip_decompose[of p] segment_example segment_no_terminator[of p]
  ultimately show ?thesis by blast
qed

theorem segment_spec_witness:
  "list_all (\<lambda>c. \<not> sentence_endings c) ''Hi  all ''
   \<and> segment [''Hi  all ''] = [''Hi  all'']
   \<and> segment [''One.. Two?'', '' ! '', ''three''] = [''One'', ''Two'', ''three'']
   \<and> list_all (\<lambda>s. s \<noteq> [] \<and> strip s = s) (segment [''One.. Two?'', '' ! '', ''three''])"
  using segment_spec[of "[''One.. Two?'', '' ! '', ''three'']" "[]" "''Hi  all ''"]
  by (simp add: segment_def strip_def sentence_endings_def is_space_def)

section \<open>The word tokenizer\<close>

lemma split_ws_token: "t \<in> set (split_ws s) \<Longrightarrow> t \<noteq> [] \<and> (\<forall>c\<in>set t. \<not> is_space c)"
  using split_at_no_sep[of t is_space s] by (auto simp: split_ws_def)

lemma concat_split_ws: "concat (split_ws s) = filter (\<lambda>c. \<not> is_space c) s"
proof -
  have "concat (filter (\<lambda>t. t \<noteq> []) xs) = concat xs" for xs :: "string list"
    by (induction xs) auto
  then show ?thesis by (simp add: split_ws_def concat_split_at)
qed

lemma split_ws_nonempty: "\<exists>c\<in>set s. \<not> is_space c \<Longrightarrow> split_ws s \<noteq> []"
proof
  assume a: "\<exists>c\<in>set s. \<not> is_space c" and "split_ws s = []"
  then have "filter (\<lambda>c. \<not> is_space c) s = []"
    using concat_split_ws[of s] by simp
  with a show False by (auto simp: filter_empty_conv)
qed

lemma length_tokenize: "length (tokenize ss) = sum_list (map (\<lambda>s. length (split_ws s)) ss)"
  by (simp add: tokenize_def length_concat comp_def)

lemma tokenize_append: "tokenize (ss @ ts) = tokenize ss @ tokenize ts"
  by (simp add: tokenize_def)

lemma concat_tokenize: "concat (tokenize ss) = filter (\<lambda>c. \<not> is_space c) (concat ss)"
  by (induction ss) (simp_all add: tokenize_def concat_split_ws)

lemma tokenize_at_least:
  "(\<forall>s\<in>set ss. \<exists>c\<in>set s. \<not> is_space c) \<Longrightarrow> length ss \<le> length (tokenize ss)"
proof (induction ss)
  case Nil
  then show ?case by simp
next
  case (Cons s ss)
  then have "split_ws s \<noteq> []" by (simp add: split_ws_nonempty)
  then have "1 \<le> length (split_ws s)" by (cases "split_ws s") auto
  with Cons show ?case by (simp add: tokenize_def)
qed

lemma segment_tokenize_at_least: "length (segment ps) \<le> length (tokenize (segment ps))"
  using segment_member[of _ ps] by (intro tokenize_at_least) blast

lemma fetch_data_result:
  "fetch_data e rp = Inr e' \<Longrightarrow>
     \<exists>texts. rp_texts rp = Inr texts \<and> ex_sentences e' = Some (segment texts)
              \<and> ex_words e' = Some (tokenize (segment texts))"
  by (auto simp: fetch_data_def Let_def split: sum.splits)

text \<open>
  C9.  The words are the flattening of the sentences: the word list is the
  concatenation, sentence by sentence and in order, of each sentence's whitespace-separated
  tokens, so its length is the sum of the sentences' token counts; every token is
  non-empty and free of whitespace, and the tokens together are the characters of the
  sentences without the whitespace, unchanged and in order.  A sentence list in which
  every sentence has a character that is not whitespace gives at least as many words as
  sentences, and the sentences of the segmenter are such a list; what \<open>_fetch_data\<close>
  stores as words is the tokenization of what it stores as sentences.
\<close>

theorem tokenize_flattening:
  "length (tokenize ss) = sum_list (map (\<lambda>s. length (split_ws s)) ss)
   \<and> tokenize ss = concat (map split_ws ss)
   \<and> tokenize (ss @ ts) = tokenize ss @ tokenize ts
   \<and> concat (tokenize ss) = filter (\<lambda>c. \<not> is_space c) (concat ss)
   \<and> (\<forall>w\<in>set (tokenize ss). w \<noteq> [] \<and> (\<forall>c\<in>set w. \<not> is_space c))
   \<and> ((\<forall>s\<in>set ss. \<exists>c\<in>set s. \<not> is_space c) \<longrightarrow> length ss \<le> length (tokenize ss))
   \<and> length (segment ps) \<le> length (tokenize (segment ps))
   \<and> (fetch_data e rp = Inr e' \<longrightarrow>
        (\<exists>texts. rp_texts rp = Inr texts \<and> ex_sentences e' = Some (segment texts)
                  \<and> ex_words e' = Some (tokenize (segment texts))))"
proof -
  have "\<forall>w\<in>set (tokenize ss). w \<noteq> [] \<and> (\<forall>c\<in>set w. \<not> is_space c)"
    using split_ws_token by (auto simp: tokenize_def)
  moreover have "tokenize ss = concat (map split_ws ss)" by (simp add: tokenize_def)
  moreover note length_tokenize[of ss] tokenize_append[of ss ts] concat_tokenize[of ss]
    tokenize_at_least[of ss] segment_tokenize_at_least[of ps] fetch_data_result[of e rp e']
  ultimately show ?thesis by blast
qed

theorem tokenize_flattening_witness:
  "list_all (\<lambda>s. list_ex (\<lambda>c. \<not> is_space c) s) [''The cat  sat'', ''Dogs, bark'']
   \<and> tokenize [''The cat  sat'', ''Dogs, bark''] = [''The'', ''cat'', ''sat'', ''Dogs,'', ''bark'']
   \<and> length [''The cat  sat'', ''Dogs, bark''] \<le> length (tokenize [''The cat  sat'', ''Dogs, bark''])
   \<and> fetch_data Extractor_init \<lparr>rp_url = ''u'', rp_texts = Inr [''The cat sat. The cat ran!'', ''Dogs bark.'']\<rparr>
       = Inr \<lparr>ex_sentences = Some [''The cat sat'', ''The cat ran'', ''Dogs bark''],
              ex_words = Some [''The'', ''cat'', ''sat'', ''The'', ''cat'', ''ran'', ''Dogs'', ''bark'']\<rparr>"
  using tokenize_flattening[of "[''The cat  sat'', ''Dogs, bark'']" "[]" "[]" Extractor_init
      "\<lparr>rp_url = ''u'', rp_texts = Inr [''The cat sat. The cat ran!'', ''Dogs bark.'']\<rparr>"]
  by (simp add: tokenize_def split_ws_def is_space_def fetch_data_def Extractor_init_def
      segment_def strip_def sentence_endings_def)

section \<open>The extractor's stored state\<close>

lemma extract_words_fresh:
  "ex_words e = None \<Longrightarrow> rp_texts rp = Inr texts \<Longrightarrow>
   extract_words e rp pc =
     Inr (e\<lparr>ex_sentences := Some (segment texts), ex_words := Some (tokenize (segment texts))\<rparr>,
          pc\<lparr>words := Some (tokenize (segment texts))\<rparr>)"
  by (simp add: extract_words_def fetch_data_def set_words_def Let_def)

lemma extract_words_cached:
  "ex_words e = Some ws \<Longrightarrow> extract_words e rp pc = Inr (e, pc\<lparr>words := Some ws\<rparr>)"
  by (simp add: extract_words_def set_words_def)

lemma extract_words_failed:
  "ex_words e = None \<Longrightarrow> rp_texts rp = Inl err \<Longrightarrow> extract_words e rp pc = Inl err"
  by (simp add: extract_words_def fetch_data_def)

text \<open>
  C10, as the code has it.  \<open>extract_words\<close> is a function of the extractor's stored
  state and of the page.  An extractor whose words are unset computes them from the
  paragraphs of the page it is given, as the tokenization of their segmentation, stores
  them (with the sentences) and hands them to the page content; when the page cannot be
  read the error is passed on.  An extractor whose words are set hands out the stored words
  and stays as it is, whatever page it is given.
\<close>

theorem extract_words_stored_state:
  "(ex_words e = None \<and> rp_texts rp = Inr texts \<longrightarrow>
      extract_words e rp pc =
        Inr (e\<lparr>ex_sentences := Some (segment texts),
               ex_words := Some (tokenize (segment texts))\<rparr>,
             pc\<lparr>words := Some (tokenize (segment texts))\<rparr>))
   \<and> (ex_words e = None \<and> rp_texts rp = Inl err \<longrightarrow> extract_words e rp pc = Inl err)
   \<and> (ex_words e2 = Some ws \<longrightarrow> extract_words e2 rp2 pc2 = Inr (e2, pc2\<lparr>words := Some ws\<rparr>))"
  using extract_words_fresh extract_words_cached extract_words_failed by blast

theorem extract_words_stored_state_witness:
  "ex_words Extractor_init = None
   \<and> extract_words Extractor_init \<lparr>rp_url = ''u'', rp_texts = Inr [''A b.'']\<rparr> (PageContent_init ''u'')
       = Inr (\<lparr>ex_sentences = Some [''A b''], ex_words = Some [''A'', ''b'']\<rparr>,
              \<lparr>url = ''u'', sentences = None, words = Some [''A'', ''b'']\<rparr>)
   \<and> extract_words Extractor_init \<lparr>rp_url = ''u'', rp_texts = Inl UrlError\<rparr> (PageContent_init ''u'')
       = Inl UrlError
   \<and> extract_words \<lparr>ex_sentences = Some [''A b''], ex_words = Some [''A'', ''b'']\<rparr>
        \<lparr>rp_url = ''v'', rp_texts = Inr [''C.'']\<rparr> (PageContent_init ''v'')
       = Inr (\<lparr>ex_sentences = Some [''A b''], ex_words = Some [''A'', ''b'']\<rparr>,
              \<lparr>url = ''v'', sentences = None, words = Some [''A'', ''b'']\<rparr>)"
  using extract_words_stored_state[of Extractor_init
      "\<lparr>rp_url = ''u'', rp_texts = Inr [''A b.'']\<rparr>" "[''A b.'']" "PageContent_init ''u''"
      UrlError "\<lparr>ex_sentences = Some [''A b''], ex_words = Some [''A'', ''b'']\<rparr>" "[''A'', ''b'']"
      "\<lparr>rp_url = ''v'', rp_texts = Inr [''C.'']\<rparr>" "PageContent_init ''v''"]
    extract_words_stored_state[of Extractor_init
      "\<lparr>rp_url = ''u'', rp_texts = Inl UrlError\<rparr>" "[]" "PageContent_init ''u''" UrlError]
  by (simp add: Extractor_init_def PageContent_init_def tokenize_def split_ws_def is_space_def
      segment_def strip_def sentence_endings_def)

text \<open>
  The property as the specification states it does not hold: one extractor, used for a first page and then for
  a second, different page, gives the second page content the words of the first page, not
  the words of the second page's own text.
\<close>

theorem extract_words_reuse_counterexample:
  "extract_words Extractor_init \<lparr>rp_url = ''u'', rp_texts = Inr [''A b.'']\<rparr> (PageContent_init ''u'')
     = Inr (\<lparr>ex_sentences = Some [''A b''], ex_words = Some [''A'', ''b'']\<rparr>,
            \<lparr>url = ''u'', sentences = None, words = Some [''A'', ''b'']\<rparr>)
   \<and> extract_words \<lparr>ex_sentences = Some [''A b''], ex_words = Some [''A'', ''b'']\<rparr>
        \<lparr>rp_url = ''v'', rp_texts = Inr [''C.'']\<rparr> (PageContent_init ''v'')
     = Inr (\<lparr>ex_sentences = Some [''A b''], ex_words = Some [''A'', ''b'']\<rparr>,
            \<lparr>url = ''v'', sentences = None, words = Some [''A'', ''b'']\<rparr>)
   \<and> tokenize (segment [''C.'']) = [''C'']
   \<and> [''A'', ''b''] \<noteq> tokenize (segment [''C.''])"
  by (simp add: extract_words_def fetch_data_def set_words_def Extractor_init_def
      PageContent_init_def tokenize_def split_ws_def is_space_def segment_def strip_def
      sentence_endings_def)

section \<open>Empty content\<close>

lemma make_analytics_Some:
  "words pc = Some ws \<Longrightarrow> sentences pc = Some ss \<Longrightarrow>
   py_max (\<lambda>sentence. length (split_ws sentence)) ss = Inr longest \<Longrightarrow>
   PageAnalytics_init pc =
     Inr \<lparr>page_content = pc,
          analytics_data =
            [(''top_10_words'', PDict (top_10_word_freq ws)),
             (''top_10_words_filtered'', PDict (top_10_filtered_word_freq ws)),
             (''average_word_length'', PFloat (np_mean (map length ws))),
             (''median_word_length'', PFloat (np_median (map length ws))),
             (''top_10_longest_words'', PDict (longest_words_dict ws)),
             (''average_sentence_length'',
                PFloat (np_mean (map (\<lambda>sentence. length (split_ws sentence)) ss))),
             (''median_sentence_length'',
                PFloat (np_median (map (\<lambda>sentence. length (split_ws sentence)) ss))),
             (''longest_sentence'', PStr longest)]\<rparr>"
  by (simp add: PageAnalytics_init_def make_analytics_def get_words_def get_sentences_def Let_def)

lemma make_analytics_Inr:
  assumes "PageAnalytics_init pc = Inr pa"
  shows "\<exists>ws ss longest. words pc = Some ws \<and> sentences pc = Some ss \<and> ss \<noteq> []
           \<and> py_max (\<lambda>sentence. length (split_ws sentence)) ss = Inr longest"
proof -
  from assms obtain ws where ws: "words pc = Some ws"
    by (cases "words pc")
       (auto simp: PageAnalytics_init_def make_analytics_def get_words_def Let_def)
  from assms ws obtain ss where ss: "sentences pc = Some ss"
    by (cases "sentences pc")
       (auto simp: PageAnalytics_init_def make_analytics_def get_words_def get_sentences_def
          Let_def)
  from assms ws ss have "ss \<noteq> []"
    by (auto simp: PageAnalytics_init_def make_analytics_def get_words_def get_sentences_def
          Let_def)
  then obtain x xs where "ss = x # xs" by (cases ss) auto
  then have "\<exists>longest. py_max (\<lambda>sentence. length (split_ws sentence)) ss = Inr longest"
    by simp
  with ws ss \<open>ss \<noteq> []\<close> show ?thesis by blast
qed

lemma py_max_nonempty: "ss \<noteq> [] \<Longrightarrow> \<exists>x. py_max k ss = Inr x"
  by (cases ss) auto

lemma make_analytics_no_sentences:
  "words pc = Some ws \<Longrightarrow> sentences pc = Some [] \<Longrightarrow> PageAnalytics_init pc = Inl ValueError"
  by (simp add: PageAnalytics_init_def make_analytics_def get_words_def get_sentences_def Let_def)

lemma make_analytics_None:
  "words pc = None \<or> sentences pc = None \<Longrightarrow> PageAnalytics_init pc = Inl TypeError"
  by (auto simp: PageAnalytics_init_def make_analytics_def get_words_def get_sentences_def
      Let_def split: option.splits)

lemma np_mean_Nil: "np_mean [] = NaN" by (simp add: np_mean_def)
lemma np_median_Nil: "np_median [] = NaN" by (simp add: np_median_def)

text \<open>
  C1, as the code has it.  The code has no error of its own for empty content.  With an
  empty sentence list \<open>make_analytics\<close> ends in the \<open>ValueError\<close> that \<open>max\<close> raises on
  an empty sequence.  With an empty word list and a non-empty sentence list it raises
  nothing: the report is built, and its mean and median word length are \<open>nan\<close>.
\<close>

theorem make_analytics_empty_content:
  "(words pc = Some ws \<and> sentences pc = Some [] \<longrightarrow> PageAnalytics_init pc = Inl ValueError)
   \<and> (words pc2 = Some [] \<and> sentences pc2 = Some ss \<and> ss \<noteq> [] \<longrightarrow>
        (\<exists>pa. PageAnalytics_init pc2 = Inr pa
           \<and> getitem (analytics_data pa) ''average_word_length'' = Inr (PFloat NaN)
           \<and> getitem (analytics_data pa) ''median_word_length'' = Inr (PFloat NaN)))"
proof (intro conjI impI)
  assume "words pc = Some ws \<and> sentences pc = Some []"
  then show "PageAnalytics_init pc = Inl ValueError"
    by (simp add: make_analytics_no_sentences)
next
  assume a: "words pc2 = Some [] \<and> sentences pc2 = Some ss \<and> ss \<noteq> []"
  then obtain longest where "py_max (\<lambda>sentence. length (split_ws sentence)) ss = Inr longest"
    using py_max_nonempty by blast
  with a show "\<exists>pa. PageAnalytics_init pc2 = Inr pa
           \<and> getitem (analytics_data pa) ''average_word_length'' = Inr (PFloat NaN)
           \<and> getitem (analytics_data pa) ''median_word_length'' = Inr (PFloat NaN)"
    by (simp add: make_analytics_Some[of pc2 "[]" ss longest] getitem_def np_mean_Nil
        np_median_Nil)
qed

theorem make_analytics_empty_content_witness:
  "PageAnalytics_init \<lparr>url = ''u'', sentences = Some [], words = Some []\<rparr> = Inl ValueError
   \<and> map_sum id (\<lambda>pa. map_of (analytics_data pa) ''average_word_length'')
        (PageAnalytics_init \<lparr>url = ''u'', sentences = Some [''A''], words = Some []\<rparr>)
       = Inr (Some (PFloat NaN))
   \<and> map_sum id (\<lambda>pa. map_of (analytics_data pa) ''median_word_length'')
        (PageAnalytics_init \<lparr>url = ''u'', sentences = Some [''A''], words = Some []\<rparr>)
       = Inr (Some (PFloat NaN))"
  using make_analytics_empty_content[of "\<lparr>url = ''u'', sentences = Some [], words = Some []\<rparr>" "[]"
      "\<lparr>url = ''u'', sentences = Some [''A''], words = Some []\<rparr>" "[''A'']"]
  by (auto simp: getitem_def split: option.splits)

text \<open>
  The property as the specification states it does not hold on both inputs: a content without sentences ends in
  \<open>ValueError\<close>, the failure of \<open>max\<close> on an empty sequence, and a content with a
  sentence and no words gives a report holding \<open>nan\<close>, with no error at all.
\<close>

theorem make_analytics_empty_counterexample:
  "PageAnalytics_init \<lparr>url = ''u'', sentences = Some [], words = Some []\<rparr> = Inl ValueError
   \<and> PageAnalytics_init \<lparr>url = ''u'', sentences = Some [''A''], words = Some []\<rparr>
       = Inr \<lparr>page_content = \<lparr>url = ''u'', sentences = Some [''A''], words = Some []\<rparr>,
              analytics_data =
                [(''top_10_words'', PDict []),
                 (''top_10_words_filtered'', PDict []),
                 (''average_word_length'', PFloat NaN),
                 (''median_word_length'', PFloat NaN),
                 (''top_10_longest_words'', PDict []),
                 (''average_sentence_length'', PFloat (Fin 1)),
                 (''median_sentence_length'', PFloat (Fin 1)),
                 (''longest_sentence'', PStr ''A'')]\<rparr>"
  by (simp add: PageAnalytics_init_def make_analytics_def get_words_def get_sentences_def
      Let_def top_10_word_freq_def top_10_filtered_word_freq_def filtered_word_freq_def
      word_freq_top20_def most_common_def sorted_reverse_def Counter_def dict_of_def
      longest_words_dict_def longest_words_def np_mean_def np_median_def split_ws_def
      is_space_def)

section \<open>Saving and rendering the report\<close>

lemma save_to_json_data:
  "analytics_data (fst (save_to_json self filename)) =
     AList.update ''url'' (PStr (url (page_content self))) (analytics_data self)"
  by (simp add: save_to_json_def Let_def)

lemma update_twice: "AList.update k v (AList.update k v al) = AList.update k v al"
  by (induction al) auto

text \<open>
  C3, as the code has it.  \<open>save_to_json\<close> stores the address in the report in memory,
  under the key \<open>url\<close>: the key is appended when the report does not have it and its
  value is replaced otherwise.  The page content, every other key with its value and the
  order of the keys stay as they were; the record that is written is the report after the
  change, and saving a second time changes nothing more.
\<close>

theorem save_to_json_effect:
  "page_content (fst (save_to_json self filename)) = page_content self
   \<and> map_of (analytics_data (fst (save_to_json self filename))) =
        (map_of (analytics_data self))(''url'' \<mapsto> PStr (url (page_content self)))
   \<and> map fst (analytics_data (fst (save_to_json self filename))) =
        (if ''url'' \<in> set (map fst (analytics_data self)) then map fst (analytics_data self)
         else map fst (analytics_data self) @ [''url''])
   \<and> snd (save_to_json self filename) =
        (filename, analytics_data (fst (save_to_json self filename)))
   \<and> fst (save_to_json (fst (save_to_json self filename)) filename) =
        fst (save_to_json self filename)"
proof -
  have "map fst (analytics_data (fst (save_to_json self filename))) =
        (if ''url'' \<in> set (map fst (analytics_data self)) then map fst (analytics_data self)
         else map fst (analytics_data self) @ [''url''])"
    unfolding save_to_json_data by (rule update_keys)
  moreover have "map_of (analytics_data (fst (save_to_json self filename))) =
        (map_of (analytics_data self))(''url'' \<mapsto> PStr (url (page_content self)))"
    unfolding save_to_json_data by (rule update_conv')
  moreover have "fst (save_to_json (fst (save_to_json self filename)) filename) =
        fst (save_to_json self filename)"
    by (simp add: save_to_json_def Let_def update_twice)
  moreover have "page_content (fst (save_to_json self filename)) = page_content self"
    "snd (save_to_json self filename) =
        (filename, analytics_data (fst (save_to_json self filename)))"
    by (simp_all add: save_to_json_def Let_def)
  ultimately show ?thesis by blast
qed

text \<open>
  The property as the specification states it does not hold: the report built for the one-sentence content
  \<open>cat\<close> has no key \<open>url\<close>, and after \<open>save_to_json\<close> the report in memory has it.
\<close>

theorem save_to_json_mutates_counterexample:
  "PageAnalytics_init \<lparr>url = ''u'', sentences = Some [''cat''], words = Some [''cat'']\<rparr>
     = Inr \<lparr>page_content = \<lparr>url = ''u'', sentences = Some [''cat''], words = Some [''cat'']\<rparr>,
            analytics_data =
              [(''top_10_words'', PDict [(''cat'', 1)]),
               (''top_10_words_filtered'', PDict [(''cat'', 1)]),
               (''average_word_length'', PFloat (Fin 3)),
               (''median_word_length'', PFloat (Fin 3)),
               (''top_10_longest_words'', PDict [(''cat'', 3)]),
               (''average_sentence_length'', PFloat (Fin 1)),
               (''median_sentence_length'', PFloat (Fin 1)),
               (''longest_sentence'', PStr ''cat'')]\<rparr>
   \<and> analytics_data (fst (save_to_json
        \<lparr>page_content = \<lparr>url = ''u'', sentences = Some [''cat''], words = Some [''cat'']\<rparr>,
         analytics_data =
              [(''top_10_words'', PDict [(''cat'', 1)]),
               (''top_10_words_filtered'', PDict [(''cat'', 1)]),
               (''average_word_length'', PFloat (Fin 3)),
               (''median_word_length'', PFloat (Fin 3)),
               (''top_10_longest_words'', PDict [(''cat'', 3)]),
               (''average_sentence_length'', PFloat (Fin 1)),
               (''median_sentence_length'', PFloat (Fin 1)),
               (''longest_sentence'', PStr ''cat'')]\<rparr> ''out.json''))
     = [(''top_10_words'', PDict [(''cat'', 1)]),
        (''top_10_words_filtered'', PDict [(''cat'', 1)]),
        (''average_word_length'', PFloat (Fin 3)),
        (''median_word_length'', PFloat (Fin 3)),
        (''top_10_longest_words'', PDict [(''cat'', 3)]),
        (''average_sentence_length'', PFloat (Fin 1)),
        (''median_sentence_length'', PFloat (Fin 1)),
        (''longest_sentence'', PStr ''cat''),
        (''url'', PStr ''u'')]"
  by (simp add: PageAnalytics_init_def make_analytics_def get_words_def get_sentences_def
      Let_def top_10_word_freq_def top_10_filtered_word_freq_def filtered_word_freq_def
      word_freq_top20_def most_common_def sorted_reverse_def Counter_def dict_of_def
      longest_words_dict_def longest_words_def np_mean_def np_median_def split_ws_def
      is_space_def save_to_json_def lower_def lower_char_def stopwords_def)

lemma str_raises_on_fields:
  assumes "map_of d ''top_10_words'' = Some a" "map_of d ''top_10_words_filtered'' = Some b"
    "map_of d ''average_word_length'' = Some (PFloat x1)"
    "map_of d ''median_word_length'' = Some (PFloat x2)"
    "map_of d ''top_10_longest_words'' = Some c"
    "map_of d ''average_sentence_length'' = Some (PFloat x3)"
    "map_of d ''median_sentence_length'' = Some (PFloat x4)"
    "map_of d ''longest_sentence'' = Some (PStr s)"
  shows "PageAnalytics_str repr_dict str_float fixed2 \<lparr>page_content = pc, analytics_data = d\<rparr>
           = Inl ValueError"
  using assms
  by (simp add: PageAnalytics_str_def and_then_def line_plain_def line_2f_def getitem_def)

text \<open>
  C2.  The specification wants the longest sentence rendered as plain text and the
  rendering to succeed; the code does neither.  For every report that
  \<open>PageAnalytics\<close> constructs, \<open>__str__\<close> formats the first seven fields and then applies
  \<open>:.2f\<close> to the longest sentence, a \<open>str\<close>: it raises \<open>ValueError\<close> and returns no text.
\<close>

theorem PageAnalytics_str_raises:
  assumes "PageAnalytics_init pc = Inr pa"
  shows "PageAnalytics_str repr_dict str_float fixed2 pa = Inl ValueError"
proof -
  from make_analytics_Inr[OF assms] obtain ws ss longest where
    h: "words pc = Some ws" "sentences pc = Some ss"
       "py_max (\<lambda>sentence. length (split_ws sentence)) ss = Inr longest"
    by blast
  from make_analytics_Some[OF h] assms have
    "pa = \<lparr>page_content = pc,
          analytics_data =
            [(''top_10_words'', PDict (top_10_word_freq ws)),
             (''top_10_words_filtered'', PDict (top_10_filtered_word_freq ws)),
             (''average_word_length'', PFloat (np_mean (map length ws))),
             (''median_word_length'', PFloat (np_median (map length ws))),
             (''top_10_longest_words'', PDict (longest_words_dict ws)),
             (''average_sentence_length'',
                PFloat (np_mean (map (\<lambda>sentence. length (split_ws sentence)) ss))),
             (''median_sentence_length'',
                PFloat (np_median (map (\<lambda>sentence. length (split_ws sentence)) ss))),
             (''longest_sentence'', PStr longest)]\<rparr>"
    by simp
  then show ?thesis
    by (simp add: str_raises_on_fields)
qed

theorem PageAnalytics_str_raises_witness:
  "PageAnalytics_init \<lparr>url = ''u'', sentences = Some [''cat''], words = Some [''cat'']\<rparr>
     = Inr \<lparr>page_content = \<lparr>url = ''u'', sentences = Some [''cat''], words = Some [''cat'']\<rparr>,
            analytics_data =
              [(''top_10_words'', PDict [(''cat'', 1)]),
               (''top_10_words_filtered'', PDict [(''cat'', 1)]),
               (''average_word_length'', PFloat (Fin 3)),
               (''median_word_length'', PFloat (Fin 3)),
               (''top_10_longest_words'', PDict [(''cat'', 3)]),
               (''average_sentence_length'', PFloat (Fin 1)),
               (''median_sentence_length'', PFloat (Fin 1)),
               (''longest_sentence'', PStr ''cat'')]\<rparr>
   \<and> PageAnalytics_str (\<lambda>d. ''{}'') (\<lambda>x. ''0.0'') (\<lambda>x. ''0.00'')
        \<lparr>page_content = \<lparr>url = ''u'', sentences = Some [''cat''], words = Some [''cat'']\<rparr>,
         analytics_data =
              [(''top_10_words'', PDict [(''cat'', 1)]),
               (''top_10_words_filtered'', PDict [(''cat'', 1)]),
               (''average_word_length'', PFloat (Fin 3)),
               (''median_word_length'', PFloat (Fin 3)),
               (''top_10_longest_words'', PDict [(''cat'', 3)]),
               (''average_sentence_length'', PFloat (Fin 1)),
               (''median_sentence_length'', PFloat (Fin 1)),
               (''longest_sentence'', PStr ''cat'')]\<rparr>
     = Inl ValueError"
proof -
  have init: "PageAnalytics_init \<lparr>url = ''u'', sentences = Some [''cat''], words = Some [''cat'']\<rparr>
     = Inr \<lparr>page_content = \<lparr>url = ''u'', sentences = Some [''cat''], words = Some [''cat'']\<rparr>,
            analytics_data =
              [(''top_10_words'', PDict [(''cat'', 1)]),
               (''top_10_words_filtered'', PDict [(''cat'', 1)]),
               (''average_word_length'', PFloat (Fin 3)),
               (''median_word_length'', PFloat (Fin 3)),
               (''top_10_longest_words'', PDict [(''cat'', 3)]),
               (''average_sentence_length'', PFloat (Fin 1)),
               (''median_sentence_length'', PFloat (Fin 1)),
               (''longest_sentence'', PStr ''cat'')]\<rparr>"
    by (simp add: PageAnalytics_init_def make_analytics_def get_words_def get_sentences_def
      Let_def top_10_word_freq_def top_10_filtered_word_freq_def filtered_word_freq_def
      word_freq_top20_def most_common_def sorted_reverse_def Counter_def dict_of_def
      longest_words_dict_def longest_words_def np_mean_def np_median_def split_ws_def
      is_space_def lower_def lower_char_def stopwords_def)
  from PageAnalytics_str_raises[OF init] init show ?thesis by simp
qed

section \<open>The longest sentence\<close>

lemma fold_max_first:
  "\<exists>pre post. x # xs = pre @ fold (\<lambda>item best. if k best < k item then item else best) xs x # post
      \<and> (\<forall>s\<in>set pre. k s < k (fold (\<lambda>item best. if k best < k item then item else best) xs x))
      \<and> (\<forall>s\<in>set post. k s \<le> k (fold (\<lambda>item best. if k best < k item then item else best) xs x))"
  for k :: "'a \<Rightarrow> nat"
proof (induction xs rule: rev_induct)
  case Nil
  have "[x] = [] @ x # []" by simp
  then show ?case by fastforce
next
  case (snoc y xs)
  let ?f = "\<lambda>item best. if k best < k item then item else best"
  let ?r = "fold ?f xs x"
  from snoc obtain pre post where d: "x # xs = pre @ ?r # post"
    and pre: "\<forall>s\<in>set pre. k s < k ?r" and post: "\<forall>s\<in>set post. k s \<le> k ?r"
    by blast
  show ?case
  proof (cases "k ?r < k y")
    case True
    then have r: "fold ?f (xs @ [y]) x = y" by simp
    have "x # xs @ [y] = (x # xs) @ y # []" by simp
    moreover have "\<forall>s\<in>set (x # xs). k s < k y"
    proof
      fix s assume "s \<in> set (x # xs)"
      then have "s \<in> set pre \<or> s = ?r \<or> s \<in> set post" unfolding d by auto
      with pre post True show "k s < k y" by fastforce
    qed
    ultimately show ?thesis unfolding r by (metis empty_iff list.set(1))
  next
    case False
    then have r: "fold ?f (xs @ [y]) x = ?r" by simp
    have "x # xs @ [y] = pre @ ?r # (post @ [y])" using d by simp
    moreover have "\<forall>s\<in>set (post @ [y]). k s \<le> k ?r" using post False by auto
    ultimately show ?thesis unfolding r using pre by blast
  qed
qed

lemma py_max_first:
  assumes "py_max k ss = Inr r"
  shows "\<exists>pre post. ss = pre @ r # post \<and> (\<forall>s\<in>set pre. k s < k r) \<and> (\<forall>s\<in>set post. k s \<le> k r)"
proof (cases ss)
  case Nil
  with assms show ?thesis by simp
next
  case (Cons x xs)
  with assms have "r = fold (\<lambda>item best. if k best < k item then item else best) xs x" by simp
  then show ?thesis using fold_max_first[of x xs k] Cons by simp
qed

text \<open>
  C7.  For a content with words and a non-empty sentence list the report is built and its
  \<open>longest_sentence\<close> is a sentence of the list such that every sentence before it has
  strictly fewer whitespace-separated tokens and every sentence after it has at most as
  many: the first sentence, in order, with the maximal word count.
\<close>

theorem longest_sentence_first_max:
  assumes "words pc = Some ws" "sentences pc = Some ss" "ss \<noteq> []"
  shows "\<exists>pa longest pre post.
           PageAnalytics_init pc = Inr pa
           \<and> getitem (analytics_data pa) ''longest_sentence'' = Inr (PStr longest)
           \<and> py_max (\<lambda>sentence. length (split_ws sentence)) ss = Inr longest
           \<and> ss = pre @ longest # post
           \<and> (\<forall>s\<in>set pre. length (split_ws s) < length (split_ws longest))
           \<and> (\<forall>s\<in>set post. length (split_ws s) \<le> length (split_ws longest))"
proof -
  from assms(3) obtain longest where
    m: "py_max (\<lambda>sentence. length (split_ws sentence)) ss = Inr longest"
    using py_max_nonempty by blast
  from py_max_first[OF m] obtain pre post where
    "ss = pre @ longest # post"
    "\<forall>s\<in>set pre. length (split_ws s) < length (split_ws longest)"
    "\<forall>s\<in>set post. length (split_ws s) \<le> length (split_ws longest)"
    by blast
  moreover have "getitem (analytics_data (projr (PageAnalytics_init pc))) ''longest_sentence''
                   = Inr (PStr longest)"
    by (simp add: make_analytics_Some[OF assms(1,2) m] getitem_def)
  moreover have "PageAnalytics_init pc = Inr (projr (PageAnalytics_init pc))"
    by (simp add: make_analytics_Some[OF assms(1,2) m])
  ultimately show ?thesis using m by blast
qed

theorem longest_sentence_first_max_witness:
  "map_sum id (\<lambda>pa. getitem (analytics_data pa) ''longest_sentence'')
     (PageAnalytics_init \<lparr>url = ''u'', sentences = Some [''a b'', ''c d e'', ''f  g h'', ''i''],
                          words = Some [''a'', ''b'']\<rparr>)
     = Inr (Inr (PStr ''c d e''))
   \<and> map (\<lambda>s. length (split_ws s)) [''a b'', ''c d e'', ''f  g h'', ''i''] = [2, 3, 3, 1]"
proof -
  have e: "py_max (\<lambda>sentence. length (split_ws sentence)) [''a b'', ''c d e'', ''f  g h'', ''i'']
             = Inr ''c d e''"
    by (simp add: split_ws_def is_space_def)
  have "map (\<lambda>s. length (split_ws s)) [''a b'', ''c d e'', ''f  g h'', ''i''] = [2, 3, 3, 1]"
    by (simp add: split_ws_def is_space_def)
  then show ?thesis
    using longest_sentence_first_max[of
      "\<lparr>url = ''u'', sentences = Some [''a b'', ''c d e'', ''f  g h'', ''i''], words = Some [''a'', ''b'']\<rparr>"
      "[''a'', ''b'']" "[''a b'', ''c d e'', ''f  g h'', ''i'']"] e
    by auto
qed

section \<open>Dictionaries\<close>

lemma update_fresh: "k \<notin> fst ` set al \<Longrightarrow> AList.update k v al = al @ [(k, v)]"
  by (induction al) auto

lemma fold_update_distinct:
  "distinct (map fst (d @ ps)) \<Longrightarrow> fold (\<lambda>(k, v) d. AList.update k v d) ps d = d @ ps"
proof (induction ps arbitrary: d)
  case Nil
  then show ?case by simp
next
  case (Cons p ps)
  obtain k v where p: "p = (k, v)" by (cases p)
  from Cons.prems have "k \<notin> fst ` set d" by (auto simp: p)
  then have u: "AList.update k v d = d @ [(k, v)]" by (rule update_fresh)
  from Cons.prems have "distinct (map fst ((d @ [(k, v)]) @ ps))" by (simp add: p)
  from Cons.IH[OF this] show ?case by (simp add: p u)
qed

lemma dict_of_distinct: "distinct (map fst ps) \<Longrightarrow> dict_of ps = ps"
  using fold_update_distinct[of "[]" ps] by (simp add: dict_of_def)

lemma dict_of_snoc: "dict_of (ps @ [(k, v)]) = AList.update k v (dict_of ps)"
  by (simp add: dict_of_def)

lemma dict_of_Nil: "dict_of [] = []"
  by (simp add: dict_of_def)

lemma first_occurrences_snoc:
  "rev (remdups (rev (xs @ [y]))) =
     (if y \<in> set xs then rev (remdups (rev xs)) else rev (remdups (rev xs)) @ [y])"
  by simp

lemma dict_of_keyed:
  "dict_of (map (\<lambda>w. (w, f w)) xs) = map (\<lambda>w. (w, f w)) (rev (remdups (rev xs)))"
proof (induction xs rule: rev_induct)
  case Nil
  then show ?case by (simp add: dict_of_Nil)
next
  case (snoc y xs)
  let ?F = "rev (remdups (rev xs))"
  have "dict_of (map (\<lambda>w. (w, f w)) (xs @ [y])) = AList.update y (f y) (map (\<lambda>w. (w, f w)) ?F)"
    using snoc by (simp add: dict_of_snoc)
  also have "\<dots> = map (\<lambda>w. (w, f w)) (rev (remdups (rev (xs @ [y]))))"
  proof (cases "y \<in> set xs")
    case True
    then have "map_of (map (\<lambda>w. (w, f w)) ?F) y = Some (f y)"
      by (simp add: map_of_map_restrict)
    then have "AList.update y (f y) (map (\<lambda>w. (w, f w)) ?F) = map (\<lambda>w. (w, f w)) ?F"
      by (rule update_triv)
    with True show ?thesis by simp
  next
    case False
    then have "y \<notin> fst ` set (map (\<lambda>w. (w, f w)) ?F)" by (auto simp: image_iff)
    from update_fresh[OF this] False show ?thesis by simp
  qed
  finally show ?case .
qed

section \<open>Counting\<close>

lemma Counter_snoc:
  "Counter (xs @ [y]) =
     AList.update y ((case map_of (Counter xs) y of None \<Rightarrow> 0 | Some c \<Rightarrow> c) + 1) (Counter xs)"
  by (simp add: Counter_def)

lemma Counter_Nil: "Counter [] = []"
  by (simp add: Counter_def)

lemma keys_Counter: "set (map fst (Counter ws)) = set ws"
  by (induction ws rule: rev_induct) (auto simp: Counter_Nil Counter_snoc update_keys)

lemma distinct_Counter: "distinct (map fst (Counter ws))"
  by (induction ws rule: rev_induct) (simp_all add: Counter_Nil Counter_snoc distinct_update)

lemma map_of_Counter:
  "map_of (Counter ws) w = (if w \<in> set ws then Some (count_list ws w) else None)"
proof (induction ws rule: rev_induct)
  case Nil
  then show ?case by (simp add: Counter_Nil)
next
  case (snoc y xs)
  then show ?case
    by (auto simp: Counter_snoc update_conv' count_list_0_iff)
qed

lemma Counter_entry: "(w, c) \<in> set (Counter ws) \<Longrightarrow> w \<in> set ws \<and> c = count_list ws w"
proof -
  assume a: "(w, c) \<in> set (Counter ws)"
  then have "map_of (Counter ws) w = Some c"
    using distinct_Counter by (simp add: map_of_eq_Some_iff)
  then show ?thesis by (auto simp: map_of_Counter split: if_splits)
qed

lemma first_seen_snoc_mem: "a \<in> set xs \<Longrightarrow> first_seen (xs @ [y]) a = first_seen xs a"
  by (simp add: first_seen_def takeWhile_append1)

lemma first_seen_less: "a \<in> set xs \<Longrightarrow> first_seen xs a < length xs"
  unfolding first_seen_def by (induction xs) auto

lemma first_seen_snoc_new: "y \<notin> set xs \<Longrightarrow> first_seen (xs @ [y]) y = length xs"
  unfolding first_seen_def by (induction xs) auto

lemma Counter_first_seen:
  "sorted_wrt (\<lambda>a b. first_seen ws a < first_seen ws b) (map fst (Counter ws))"
proof (induction ws rule: rev_induct)
  case Nil
  then show ?case by (simp add: Counter_Nil)
next
  case (snoc y xs)
  have 1: "sorted_wrt (\<lambda>a b. first_seen (xs @ [y]) a < first_seen (xs @ [y]) b)
             (map fst (Counter xs))"
    by (rule sorted_wrt_mono_rel[OF _ snoc])
       (simp add: keys_Counter[simplified] first_seen_snoc_mem)
  show ?case
  proof (cases "y \<in> set xs")
    case True
    then show ?thesis using 1 by (simp add: Counter_snoc update_keys keys_Counter[simplified])
  next
    case False
    have "\<forall>a\<in>set (map fst (Counter xs)). first_seen (xs @ [y]) a < first_seen (xs @ [y]) y"
    proof
      fix a assume "a \<in> set (map fst (Counter xs))"
      then have "a \<in> set xs" unfolding keys_Counter .
      then show "first_seen (xs @ [y]) a < first_seen (xs @ [y]) y"
        using False by (simp add: first_seen_snoc_mem first_seen_snoc_new first_seen_less)
    qed
    with 1 False show ?thesis
      by (simp add: Counter_snoc update_keys keys_Counter[simplified] sorted_wrt_append)
  qed
qed

section \<open>Sorting in descending order\<close>

lemma set_sorted_reverse: "set (sorted_reverse k xs) = set xs"
  by (simp add: sorted_reverse_def)

lemma length_sorted_reverse: "length (sorted_reverse k xs) = length xs"
  by (simp add: sorted_reverse_def)

lemma distinct_map_insort_key:
  "distinct (map g (insort_key f x ys)) \<longleftrightarrow> g x \<notin> g ` set ys \<and> distinct (map g ys)"
  by (induction ys) (auto simp: set_insort_key)

lemma distinct_map_sort_key: "distinct (map g (sort_key f xs)) \<longleftrightarrow> distinct (map g xs)"
  by (induction xs) (auto simp: distinct_map_insort_key)

lemma distinct_sorted_reverse: "distinct (map f (sorted_reverse k xs)) = distinct (map f xs)"
  by (simp add: sorted_reverse_def distinct_map_sort_key)

lemma sorted_reverse_desc: "sorted (map (\<lambda>x. - int (k x)) (sorted_reverse k xs))"
  by (simp add: sorted_reverse_def)

lemma sorted_reverse_wrt: "sorted_wrt (\<lambda>a b. k b \<le> k a) (sorted_reverse k xs)"
  using sorted_reverse_desc[of k xs] by (simp add: sorted_map)

lemma sorted_reverse_stable:
  "filter (\<lambda>x. k x = n) (sorted_reverse k xs) = filter (\<lambda>x. k x = n) xs"
proof -
  have "(\<lambda>x. k x = n) = (\<lambda>x. - int (k x) = - int n)" by auto
  then show ?thesis
    unfolding sorted_reverse_def using sort_key_stable[of "\<lambda>x. - int (k x)" "- int n" xs]
    by simp
qed

lemma sorted_reverse_id:
  "sorted_wrt (\<lambda>a b. k b \<le> k a) xs \<Longrightarrow> sorted_reverse k xs = xs"
  unfolding sorted_reverse_def by (rule sort_key_id_if_sorted) (simp add: sorted_map)

lemma insort_key_lex:
  assumes "sorted_wrt (\<lambda>a b. f a < f b \<or> (f a = f b \<and> R a b)) ys"
    and "\<forall>y\<in>set ys. R x y"
  shows "sorted_wrt (\<lambda>a b. f a < f b \<or> (f a = f b \<and> R a b)) (insort_key f x ys)"
  using assms
proof (induction ys)
  case Nil
  then show ?case by simp
next
  case (Cons y ys)
  show ?case
  proof (cases "f x \<le> f y")
    case True
    have "\<forall>z\<in>set (y # ys). f x < f z \<or> (f x = f z \<and> R x z)"
    proof
      fix z assume z: "z \<in> set (y # ys)"
      then have "f y \<le> f z" using Cons.prems(1) by auto
      with True have "f x \<le> f z" by simp
      with z Cons.prems(2) show "f x < f z \<or> (f x = f z \<and> R x z)" by fastforce
    qed
    with True Cons.prems(1) show ?thesis by simp
  next
    case False
    then have "f y < f x" by simp
    moreover have "sorted_wrt (\<lambda>a b. f a < f b \<or> (f a = f b \<and> R a b)) (insort_key f x ys)"
      using Cons by simp
    ultimately show ?thesis using False Cons.prems(1) by (auto simp: set_insort_key)
  qed
qed

lemma sort_key_lex:
  "sorted_wrt R xs \<Longrightarrow>
   sorted_wrt (\<lambda>a b. f a < f b \<or> (f a = f b \<and> R a b)) (sort_key f xs)"
proof (induction xs)
  case Nil
  then show ?case by simp
next
  case (Cons x xs)
  then have "sorted_wrt (\<lambda>a b. f a < f b \<or> (f a = f b \<and> R a b)) (sort_key f xs)"
    and "\<forall>y\<in>set (sort_key f xs). R x y"
    by auto
  then show ?case by (simp add: insort_key_lex)
qed

lemma sorted_reverse_lex:
  assumes "sorted_wrt R xs"
  shows "sorted_wrt (\<lambda>a b. k b < k a \<or> (k a = k b \<and> R a b)) (sorted_reverse k xs)"
proof -
  have "sorted_wrt (\<lambda>a b. - int (k a) < - int (k b) \<or> (- int (k a) = - int (k b) \<and> R a b))
          (sort_key (\<lambda>x. - int (k x)) xs)"
    using assms by (rule sort_key_lex)
  then show ?thesis by (simp add: sorted_reverse_def)
qed

lemma sorted_wrt_take: "sorted_wrt P xs \<Longrightarrow> sorted_wrt P (take n xs)"
  by (metis append_take_drop_id sorted_wrt_append)

lemma take_rest_below:
  assumes "sorted_wrt (\<lambda>a b. k b \<le> k a) xs" "distinct xs"
    "e \<in> set xs" "e \<notin> set (take n xs)" "t \<in> set (take n xs)"
  shows "k e \<le> k t"
proof -
  from assms(3,4) have "e \<in> set (drop n xs)"
    by (metis Un_iff append_take_drop_id set_append)
  moreover have "sorted_wrt (\<lambda>a b. k b \<le> k a) (take n xs @ drop n xs)"
    using assms(1) by simp
  ultimately show ?thesis using assms(5) unfolding sorted_wrt_append by blast
qed

section \<open>The frequency tables\<close>

lemma distinct_keys_take: "distinct (map fst xs) \<Longrightarrow> distinct (map fst (take n xs))"
  by (simp add: take_map[symmetric])

lemma word_freq_top20_eq: "word_freq_top20 ws = take 20 (sorted_reverse snd (Counter ws))"
proof -
  have "distinct (map fst (take 20 (sorted_reverse snd (Counter ws))))"
    by (intro distinct_keys_take) (simp add: distinct_sorted_reverse distinct_Counter)
  then show ?thesis by (simp add: word_freq_top20_def most_common_def dict_of_distinct)
qed

lemma distinct_word_freq_top20: "distinct (map fst (word_freq_top20 ws))"
  unfolding word_freq_top20_eq
  by (intro distinct_keys_take) (simp add: distinct_sorted_reverse distinct_Counter)

lemma word_freq_top20_desc: "sorted_wrt (\<lambda>a b. snd b \<le> snd a) (word_freq_top20 ws)"
  unfolding word_freq_top20_eq by (intro sorted_wrt_take sorted_reverse_wrt)

lemma Counter_ranked:
  "sorted_wrt (ranks_before ws) (sorted_reverse snd (Counter ws))"
proof -
  have "sorted_wrt (\<lambda>a b. first_seen ws (fst a) < first_seen ws (fst b)) (Counter ws)"
    using Counter_first_seen[of ws] by (simp add: sorted_wrt_map)
  from sorted_reverse_lex[OF this, of snd] show ?thesis
    by (simp add: ranks_before_def[abs_def])
qed

lemma word_freq_top20_ranked: "sorted_wrt (ranks_before ws) (word_freq_top20 ws)"
  unfolding word_freq_top20_eq by (intro sorted_wrt_take Counter_ranked)

lemma word_freq_top20_entry:
  "(w, c) \<in> set (word_freq_top20 ws) \<Longrightarrow> w \<in> set ws \<and> c = count_list ws w"
  unfolding word_freq_top20_eq
  using Counter_entry[of w c ws] by (auto dest!: in_set_takeD simp: set_sorted_reverse)

lemma top_10_word_freq_eq: "top_10_word_freq ws = take 10 (word_freq_top20 ws)"
proof -
  have "sorted_reverse snd (word_freq_top20 ws) = word_freq_top20 ws"
    by (rule sorted_reverse_id) (rule word_freq_top20_desc)
  moreover have "distinct (map fst (take 10 (word_freq_top20 ws)))"
    by (intro distinct_keys_take distinct_word_freq_top20)
  ultimately show ?thesis by (simp add: top_10_word_freq_def dict_of_distinct)
qed

lemma filtered_word_freq_eq:
  "filtered_word_freq ws =
     filter (\<lambda>(word, freq). lower word \<notin> set stopwords) (word_freq_top20 ws)"
  unfolding filtered_word_freq_def
  by (intro dict_of_distinct distinct_map_filter distinct_word_freq_top20)

lemma top_10_filtered_word_freq_eq:
  "top_10_filtered_word_freq ws = take 10 (filtered_word_freq ws)"
proof -
  have "sorted_wrt (\<lambda>a b. snd b \<le> snd a) (filtered_word_freq ws)"
    unfolding filtered_word_freq_eq by (intro sorted_wrt_filter word_freq_top20_desc)
  then have "sorted_reverse snd (filtered_word_freq ws) = filtered_word_freq ws"
    by (rule sorted_reverse_id)
  moreover have "distinct (map fst (take 10 (filtered_word_freq ws)))"
    unfolding filtered_word_freq_eq
    by (intro distinct_keys_take distinct_map_filter distinct_word_freq_top20)
  ultimately show ?thesis by (simp add: top_10_filtered_word_freq_def dict_of_distinct)
qed

lemma report_field:
  assumes "PageAnalytics_init pc = Inr pa" "words pc = Some ws"
  shows "getitem (analytics_data pa) ''top_10_words'' = Inr (PDict (top_10_word_freq ws))"
    and "getitem (analytics_data pa) ''top_10_words_filtered''
           = Inr (PDict (top_10_filtered_word_freq ws))"
    and "getitem (analytics_data pa) ''top_10_longest_words'' = Inr (PDict (longest_words_dict ws))"
proof -
  from make_analytics_Inr[OF assms(1)] assms(2) obtain ss longest where
    h: "sentences pc = Some ss" "py_max (\<lambda>sentence. length (split_ws sentence)) ss = Inr longest"
    by auto
  from make_analytics_Some[OF assms(2) h] assms(1)
  show "getitem (analytics_data pa) ''top_10_words'' = Inr (PDict (top_10_word_freq ws))"
    and "getitem (analytics_data pa) ''top_10_words_filtered''
           = Inr (PDict (top_10_filtered_word_freq ws))"
    and "getitem (analytics_data pa) ''top_10_longest_words'' = Inr (PDict (longest_words_dict ws))"
    by (auto simp: getitem_def)
qed

text \<open>
  C4.  \<open>top_10_words\<close> is made from \<open>word_freq_top20\<close>, the first 20 entries of the
  frequency table sorted by descending count: it is the first 10 entries of that table
  sorted again by descending count, which are its first 10 entries as they stand.  So every
  entry of \<open>top_10_words\<close> is an entry of \<open>word_freq_top20\<close>, there are 10 of them or
  as many as \<open>word_freq_top20\<close> has, every entry left out has a count no higher than any
  entry taken, every entry is a word of the word list with the number of its occurrences,
  no word has two entries, and the entries are in ranking order: higher counts first, and
  among equal counts the word first seen earlier first.  This is the value stored in the
  report under \<open>top_10_words\<close>.
\<close>

theorem top_10_words_from_top20:
  "top_10_word_freq ws = take 10 (sorted_reverse snd (word_freq_top20 ws))
   \<and> top_10_word_freq ws = take 10 (word_freq_top20 ws)
   \<and> word_freq_top20 ws = take 20 (sorted_reverse snd (Counter ws))
   \<and> set (top_10_word_freq ws) \<subseteq> set (word_freq_top20 ws)
   \<and> length (top_10_word_freq ws) = min 10 (length (word_freq_top20 ws))
   \<and> sorted_wrt (ranks_before ws) (top_10_word_freq ws)
   \<and> (\<forall>e\<in>set (word_freq_top20 ws) - set (top_10_word_freq ws).
         \<forall>t\<in>set (top_10_word_freq ws). snd e \<le> snd t)
   \<and> (\<forall>(w, c)\<in>set (top_10_word_freq ws). w \<in> set ws \<and> c = count_list ws w)
   \<and> distinct (map fst (top_10_word_freq ws))
   \<and> (PageAnalytics_init pc = Inr pa \<and> words pc = Some ws \<longrightarrow>
        getitem (analytics_data pa) ''top_10_words'' = Inr (PDict (top_10_word_freq ws)))"
proof -
  let ?T = "top_10_word_freq ws" and ?R = "word_freq_top20 ws"
  have eq: "?T = take 10 ?R" by (rule top_10_word_freq_eq)
  have 1: "?T = take 10 (sorted_reverse snd ?R)"
    unfolding eq using sorted_reverse_id[OF word_freq_top20_desc[of ws]] by simp
  have 2: "set ?T \<subseteq> set ?R" unfolding eq by (rule set_take_subset)
  have 3: "length ?T = min 10 (length ?R)" unfolding eq by simp
  have 4: "sorted_wrt (ranks_before ws) ?T"
    unfolding eq by (intro sorted_wrt_take word_freq_top20_ranked)
  have 5: "\<forall>e\<in>set ?R - set ?T. \<forall>t\<in>set ?T. snd e \<le> snd t"
  proof (intro ballI)
    fix e t assume "e \<in> set ?R - set ?T" "t \<in> set ?T"
    then have "e \<in> set ?R" "e \<notin> set (take 10 ?R)" "t \<in> set (take 10 ?R)"
      unfolding eq by auto
    moreover have "distinct ?R" using distinct_word_freq_top20[of ws] by (simp add: distinct_map)
    ultimately show "snd e \<le> snd t"
      using take_rest_below[OF word_freq_top20_desc[of ws]] by blast
  qed
  have 6: "\<forall>(w, c)\<in>set ?T. w \<in> set ws \<and> c = count_list ws w"
    using 2 word_freq_top20_entry[of _ _ ws] by blast
  have 7: "distinct (map fst ?T)"
    unfolding eq by (intro distinct_keys_take distinct_word_freq_top20)
  have 8: "PageAnalytics_init pc = Inr pa \<and> words pc = Some ws \<longrightarrow>
        getitem (analytics_data pa) ''top_10_words'' = Inr (PDict ?T)"
    using report_field(1) by blast
  from 1 eq word_freq_top20_eq[of ws] 2 3 4 5 6 7 8 show ?thesis by blast
qed

theorem top_10_words_from_top20_witness:
  "word_freq_top20 [''b'', ''a'', ''b'', ''c'', ''d'', ''e'', ''f'', ''g'', ''h'', ''i'', ''j'',
                    ''k'', ''l'', ''a'', ''k'', ''k'']
     = [(''k'', 3), (''b'', 2), (''a'', 2), (''c'', 1), (''d'', 1), (''e'', 1), (''f'', 1),
        (''g'', 1), (''h'', 1), (''i'', 1), (''j'', 1), (''l'', 1)]
   \<and> top_10_word_freq [''b'', ''a'', ''b'', ''c'', ''d'', ''e'', ''f'', ''g'', ''h'', ''i'', ''j'',
                       ''k'', ''l'', ''a'', ''k'', ''k'']
     = [(''k'', 3), (''b'', 2), (''a'', 2), (''c'', 1), (''d'', 1), (''e'', 1), (''f'', 1),
        (''g'', 1), (''h'', 1), (''i'', 1)]
   \<and> map_sum id (\<lambda>pa. getitem (analytics_data pa) ''top_10_words'')
        (PageAnalytics_init \<lparr>url = ''u'', sentences = Some [''b a b''],
                             words = Some [''b'', ''a'', ''b'']\<rparr>)
     = Inr (Inr (PDict [(''b'', 2), (''a'', 1)]))"
proof -
  let ?ws = "[''b'', ''a'', ''b'', ''c'', ''d'', ''e'', ''f'', ''g'', ''h'', ''i'', ''j'',
              ''k'', ''l'', ''a'', ''k'', ''k'']"
  have c: "Counter ?ws = [(''b'', 2), (''a'', 2), (''c'', 1), (''d'', 1), (''e'', 1), (''f'', 1),
        (''g'', 1), (''h'', 1), (''i'', 1), (''j'', 1), (''k'', 3), (''l'', 1)]"
    by (simp add: Counter_def)
  have s: "sorted_reverse snd (Counter ?ws) = [(''k'', 3), (''b'', 2), (''a'', 2), (''c'', 1),
        (''d'', 1), (''e'', 1), (''f'', 1), (''g'', 1), (''h'', 1), (''i'', 1), (''j'', 1),
        (''l'', 1)]"
    unfolding c by (simp add: sorted_reverse_def)
  have w20: "word_freq_top20 ?ws = [(''k'', 3), (''b'', 2), (''a'', 2), (''c'', 1),
        (''d'', 1), (''e'', 1), (''f'', 1), (''g'', 1), (''h'', 1), (''i'', 1), (''j'', 1),
        (''l'', 1)]"
    unfolding word_freq_top20_def most_common_def s by (simp add: dict_of_def)
  have "top_10_word_freq ?ws = take 10 (word_freq_top20 ?ws)"
    using top_10_words_from_top20[of ?ws] by blast
  then have t10: "top_10_word_freq ?ws = [(''k'', 3), (''b'', 2), (''a'', 2), (''c'', 1),
        (''d'', 1), (''e'', 1), (''f'', 1), (''g'', 1), (''h'', 1), (''i'', 1)]"
    unfolding w20 by simp
  have r: "map_sum id (\<lambda>pa. getitem (analytics_data pa) ''top_10_words'')
        (PageAnalytics_init \<lparr>url = ''u'', sentences = Some [''b a b''],
                             words = Some [''b'', ''a'', ''b'']\<rparr>)
     = Inr (Inr (PDict [(''b'', 2), (''a'', 1)]))"
    by (simp add: PageAnalytics_init_def make_analytics_def get_words_def get_sentences_def
      Let_def top_10_word_freq_def word_freq_top20_def most_common_def sorted_reverse_def
      Counter_def dict_of_def getitem_def)
  from w20 t10 r show ?thesis by simp
qed

lemma set_stopwords:
  "set stopwords = {''and'', ''or'', ''but'', ''in'', ''on'', ''at'', ''with'', ''for'', ''the'', ''a''}"
  by (simp add: stopwords_def)

text \<open>
  C5.  \<open>top_10_words_filtered\<close> is made from the entries of \<open>word_freq_top20\<close> whose
  word, in lower case, is none of the ten stopwords: it is the first 10 of them in the
  order they have in \<open>word_freq_top20\<close>.  So every entry is an entry of
  \<open>word_freq_top20\<close>, no entry's word is a stopword in lower case, there are at most 10
  entries, and when fewer than 10 entries pass the filter the result is exactly those
  entries: nothing is added, and the function has a result for every word list.  This is
  the value stored in the report under \<open>top_10_words_filtered\<close>.
\<close>

theorem top_10_filtered_from_top20:
  "set (top_10_filtered_word_freq ws) \<subseteq> set (word_freq_top20 ws)
   \<and> (\<forall>(w, c)\<in>set (top_10_filtered_word_freq ws). lower w \<notin> set stopwords)
   \<and> set stopwords =
        {''and'', ''or'', ''but'', ''in'', ''on'', ''at'', ''with'', ''for'', ''the'', ''a''}
   \<and> filtered_word_freq ws =
        filter (\<lambda>(word, freq). lower word \<notin> set stopwords) (word_freq_top20 ws)
   \<and> top_10_filtered_word_freq ws = take 10 (sorted_reverse snd (filtered_word_freq ws))
   \<and> top_10_filtered_word_freq ws = take 10 (filtered_word_freq ws)
   \<and> length (top_10_filtered_word_freq ws) = min 10 (length (filtered_word_freq ws))
   \<and> (length (filtered_word_freq ws) < 10 \<longrightarrow>
        top_10_filtered_word_freq ws = filtered_word_freq ws)
   \<and> sorted_wrt (ranks_before ws) (top_10_filtered_word_freq ws)
   \<and> distinct (map fst (top_10_filtered_word_freq ws))
   \<and> (PageAnalytics_init pc = Inr pa \<and> words pc = Some ws \<longrightarrow>
        getitem (analytics_data pa) ''top_10_words_filtered''
          = Inr (PDict (top_10_filtered_word_freq ws)))"
proof -
  let ?F = "top_10_filtered_word_freq ws" and ?L = "filtered_word_freq ws"
    and ?R = "word_freq_top20 ws"
  have eq: "?F = take 10 ?L" by (rule top_10_filtered_word_freq_eq)
  have feq: "?L = filter (\<lambda>(word, freq). lower word \<notin> set stopwords) ?R"
    by (rule filtered_word_freq_eq)
  have sub: "set ?F \<subseteq> set ?L" unfolding eq by (rule set_take_subset)
  have 1: "set ?F \<subseteq> set ?R" using sub unfolding feq by auto
  have 2: "\<forall>(w, c)\<in>set ?F. lower w \<notin> set stopwords" using sub unfolding feq by auto
  have desc: "sorted_wrt (\<lambda>a b. snd b \<le> snd a) ?L"
    unfolding feq by (intro sorted_wrt_filter word_freq_top20_desc)
  have 3: "?F = take 10 (sorted_reverse snd ?L)"
    unfolding eq using sorted_reverse_id[OF desc] by simp
  have 4: "length ?F = min 10 (length ?L)" unfolding eq by simp
  have 5: "length ?L < 10 \<longrightarrow> ?F = ?L" unfolding eq by simp
  have 6: "sorted_wrt (ranks_before ws) ?F"
    unfolding eq feq by (intro sorted_wrt_take sorted_wrt_filter word_freq_top20_ranked)
  have 7: "distinct (map fst ?F)"
    unfolding eq feq by (intro distinct_keys_take distinct_map_filter distinct_word_freq_top20)
  have 8: "PageAnalytics_init pc = Inr pa \<and> words pc = Some ws \<longrightarrow>
        getitem (analytics_data pa) ''top_10_words_filtered'' = Inr (PDict ?F)"
    using report_field(2) by blast
  from 1 2 set_stopwords feq 3 eq 4 5 6 7 8 show ?thesis by blast
qed

lemma lower_examples:
  "lower ''The'' = ''the''" "lower ''cat'' = ''cat''" "lower ''AND'' = ''and''"
  "lower ''sat'' = ''sat''" "lower ''a'' = ''a''" "lower ''Dogs'' = ''dogs''"
  by code_simp+

theorem top_10_filtered_from_top20_witness:
  "word_freq_top20 [''The'', ''cat'', ''AND'', ''a'', ''cat'', ''sat'', ''The'', ''Dogs'']
     = [(''The'', 2), (''cat'', 2), (''AND'', 1), (''a'', 1), (''sat'', 1), (''Dogs'', 1)]
   \<and> filtered_word_freq [''The'', ''cat'', ''AND'', ''a'', ''cat'', ''sat'', ''The'', ''Dogs'']
     = [(''cat'', 2), (''sat'', 1), (''Dogs'', 1)]
   \<and> length (filtered_word_freq
               [''The'', ''cat'', ''AND'', ''a'', ''cat'', ''sat'', ''The'', ''Dogs'']) < 10
   \<and> top_10_filtered_word_freq
        [''The'', ''cat'', ''AND'', ''a'', ''cat'', ''sat'', ''The'', ''Dogs'']
     = [(''cat'', 2), (''sat'', 1), (''Dogs'', 1)]
   \<and> map_sum id (\<lambda>pa. getitem (analytics_data pa) ''top_10_words_filtered'')
        (PageAnalytics_init \<lparr>url = ''u'', sentences = Some [''a cat''],
                             words = Some [''a'', ''cat'']\<rparr>)
     = Inr (Inr (PDict [(''cat'', 1)]))"
proof -
  let ?ws = "[''The'', ''cat'', ''AND'', ''a'', ''cat'', ''sat'', ''The'', ''Dogs'']"
  have w20: "word_freq_top20 ?ws
     = [(''The'', 2), (''cat'', 2), (''AND'', 1), (''a'', 1), (''sat'', 1), (''Dogs'', 1)]"
    by (simp add: word_freq_top20_def most_common_def sorted_reverse_def Counter_def dict_of_def)
  have "filtered_word_freq ?ws =
        filter (\<lambda>(word, freq). lower word \<notin> set stopwords) (word_freq_top20 ?ws)"
    using top_10_filtered_from_top20[of ?ws] by blast
  then have f: "filtered_word_freq ?ws = [(''cat'', 2), (''sat'', 1), (''Dogs'', 1)]"
    unfolding w20 by (simp add: lower_examples stopwords_def)
  then have len: "length (filtered_word_freq ?ws) < 10" by simp
  have "length (filtered_word_freq ?ws) < 10 \<longrightarrow>
        top_10_filtered_word_freq ?ws = filtered_word_freq ?ws"
    using top_10_filtered_from_top20[of ?ws] by blast
  with len f have t: "top_10_filtered_word_freq ?ws = [(''cat'', 2), (''sat'', 1), (''Dogs'', 1)]"
    by simp
  have r: "map_sum id (\<lambda>pa. getitem (analytics_data pa) ''top_10_words_filtered'')
        (PageAnalytics_init \<lparr>url = ''u'', sentences = Some [''a cat''],
                             words = Some [''a'', ''cat'']\<rparr>)
     = Inr (Inr (PDict [(''cat'', 1)]))"
    by (simp add: PageAnalytics_init_def make_analytics_def get_words_def get_sentences_def
      Let_def top_10_filtered_word_freq_def filtered_word_freq_def word_freq_top20_def
      most_common_def sorted_reverse_def Counter_def dict_of_def getitem_def lower_examples
      stopwords_def split_ws_def is_space_def)
  from w20 f len t r show ?thesis by simp
qed

section \<open>The longest words\<close>

lemma longest_words_dict_eq:
  "longest_words_dict ws =
     map (\<lambda>word. (word, length word)) (rev (remdups (rev (longest_words ws))))"
  unfolding longest_words_dict_def by (rule dict_of_keyed)

lemma set_longest_words: "set (longest_words ws) \<subseteq> set ws"
  unfolding longest_words_def
  using set_take_subset[of 10 "sorted_reverse length ws"] by (simp add: set_sorted_reverse)

lemma length_first_occurrences: "length (rev (remdups (rev xs))) = card (set xs)"
  using length_remdups_card_conv[of "rev xs"] by simp

text \<open>
  C8.  \<open>top_10_longest_words\<close> is made from the first 10 words of the word list sorted by
  descending length; that sort keeps the words of equal length in their original order
  and neither adds nor loses a word.  The mapping has one entry for each distinct word
  among those 10, in the order of their first occurrence there, and the value of an entry
  is the length of its word.  So a word is a key exactly when it is among the 10, no key
  occurs twice, and the number of entries is the number of distinct words among the 10,
  which is at most 10 and at most the number of distinct words of the word list.  This is
  the value stored in the report under \<open>top_10_longest_words\<close>.
\<close>

theorem top_10_longest_words_spec:
  "longest_words ws = take 10 (sorted_reverse length ws)
   \<and> sorted_wrt (\<lambda>a b. length b \<le> length a) (sorted_reverse length ws)
   \<and> filter (\<lambda>w. length w = n) (sorted_reverse length ws) = filter (\<lambda>w. length w = n) ws
   \<and> length (sorted_reverse length ws) = length ws
   \<and> set (sorted_reverse length ws) = set ws
   \<and> longest_words_dict ws =
        map (\<lambda>word. (word, length word)) (rev (remdups (rev (longest_words ws))))
   \<and> map_of (longest_words_dict ws) w =
        (if w \<in> set (longest_words ws) then Some (length w) else None)
   \<and> (\<forall>(word, l)\<in>set (longest_words_dict ws). l = length word \<and> word \<in> set ws)
   \<and> distinct (map fst (longest_words_dict ws))
   \<and> set (map fst (longest_words_dict ws)) = set (longest_words ws)
   \<and> length (longest_words_dict ws) = card (set (longest_words ws))
   \<and> length (longest_words_dict ws) \<le> card (set ws)
   \<and> length (longest_words_dict ws) \<le> 10
   \<and> (PageAnalytics_init pc = Inr pa \<and> words pc = Some ws \<longrightarrow>
        getitem (analytics_data pa) ''top_10_longest_words''
          = Inr (PDict (longest_words_dict ws)))"
proof -
  let ?L = "longest_words ws" and ?D = "longest_words_dict ws"
  let ?F = "rev (remdups (rev ?L))"
  have eq: "?D = map (\<lambda>word. (word, length word)) ?F" by (rule longest_words_dict_eq)
  have keys: "map fst ?D = ?F" unfolding eq by (simp add: comp_def)
  have 1: "map_of ?D w = (if w \<in> set ?L then Some (length w) else None)"
    unfolding eq by (simp add: map_of_map_restrict restrict_map_def)
  have 2: "\<forall>(word, l)\<in>set ?D. l = length word \<and> word \<in> set ws"
    unfolding eq using set_longest_words[of ws] by auto
  have 3: "distinct (map fst ?D)" unfolding keys by simp
  have 4: "set (map fst ?D) = set ?L" unfolding keys by simp
  have 5: "length ?D = card (set ?L)"
    unfolding eq by (simp add: length_first_occurrences del: length_rev)
  have 6: "length ?D \<le> card (set ws)"
    unfolding 5 by (intro card_mono set_longest_words) simp
  have "card (set ?L) \<le> length ?L" by (rule card_length)
  also have "\<dots> \<le> 10" by (simp add: longest_words_def)
  finally have 7: "length ?D \<le> 10" unfolding 5 .
  have 8: "PageAnalytics_init pc = Inr pa \<and> words pc = Some ws \<longrightarrow>
        getitem (analytics_data pa) ''top_10_longest_words'' = Inr (PDict ?D)"
    using report_field(3) by blast
  have 9: "?L = take 10 (sorted_reverse length ws)" by (simp add: longest_words_def)
  from 9 sorted_reverse_wrt[of length ws] sorted_reverse_stable[of length n ws]
    length_sorted_reverse[of length ws] set_sorted_reverse[of length ws]
    eq 1 2 3 4 5 6 7 8
  show ?thesis by blast
qed

theorem top_10_longest_words_spec_witness:
  "longest_words [''b'', ''aaa'', ''bb'', ''ccc'', ''aaa'', ''b'', ''dddd'']
     = [''dddd'', ''aaa'', ''ccc'', ''aaa'', ''bb'', ''b'', ''b'']
   \<and> longest_words_dict [''b'', ''aaa'', ''bb'', ''ccc'', ''aaa'', ''b'', ''dddd'']
     = [(''dddd'', 4), (''aaa'', 3), (''ccc'', 3), (''bb'', 2), (''b'', 1)]
   \<and> map_sum id (\<lambda>pa. getitem (analytics_data pa) ''top_10_longest_words'')
        (PageAnalytics_init \<lparr>url = ''u'', sentences = Some [''a cat a''],
                             words = Some [''a'', ''cat'', ''a'']\<rparr>)
     = Inr (Inr (PDict [(''cat'', 3), (''a'', 1)]))"
proof -
  let ?ws = "[''b'', ''aaa'', ''bb'', ''ccc'', ''aaa'', ''b'', ''dddd'']"
  have l: "longest_words ?ws = [''dddd'', ''aaa'', ''ccc'', ''aaa'', ''bb'', ''b'', ''b'']"
    by (simp add: longest_words_def sorted_reverse_def)
  have "longest_words_dict ?ws =
        map (\<lambda>word. (word, length word)) (rev (remdups (rev (longest_words ?ws))))"
    using top_10_longest_words_spec[of ?ws] by blast
  then have d: "longest_words_dict ?ws
     = [(''dddd'', 4), (''aaa'', 3), (''ccc'', 3), (''bb'', 2), (''b'', 1)]"
    unfolding l by simp
  have r: "map_sum id (\<lambda>pa. getitem (analytics_data pa) ''top_10_longest_words'')
        (PageAnalytics_init \<lparr>url = ''u'', sentences = Some [''a cat a''],
                             words = Some [''a'', ''cat'', ''a'']\<rparr>)
     = Inr (Inr (PDict [(''cat'', 3), (''a'', 1)]))"
    by (simp add: PageAnalytics_init_def make_analytics_def get_words_def get_sentences_def
      Let_def longest_words_dict_def longest_words_def sorted_reverse_def dict_of_def
      getitem_def split_ws_def is_space_def)
  from l d r show ?thesis by simp
qed

end
